theory Spec2Isabelle
  imports Complex_Main
begin

section \<open>Tables of simulation results\<close>

text \<open>
  The metrics of \<^verbatim>\<open>wntr/metrics/water_security.py\<close> work on pandas tables. A
  DataFrame is a list of row labels (the times), a list of column labels (node or link
  names) and one row of cells per time. Floating point numbers are read as reals: there
  is no NaN, no infinity and no rounding in this development.

  What pandas does on labels that do not line up (it takes the union of the labels and
  fills the missing cells with NaN) and on duplicate column labels is not part of the
  embedding: the operations below return \<open>Outside_Model\<close> there, which is not an
  exception of the program.
\<close>

datatype error = KeyError | IndexError | ValueError | Outside_Model

record 'a frame =
  index :: "real list"
  columns :: "string list"
  cells :: "'a list list"

type_synonym 'a series = "(string \<times> 'a) list"

definition wf_frame :: "'a frame \<Rightarrow> bool" where
  "wf_frame df \<longleftrightarrow>
     length (cells df) = length (index df) \<and>
     list_all (\<lambda>r. length r = length (columns df)) (cells df)"

text \<open>Positional access, \<^verbatim>\<open>df.iloc[i, k]\<close>, for positions inside the table.\<close>

definition cell :: "'a frame \<Rightarrow> nat \<Rightarrow> nat \<Rightarrow> 'a" where
  "cell df i k = cells df ! i ! k"

text \<open>An elementwise operation with a scalar: \<^verbatim>\<open>df > c\<close>, \<^verbatim>\<open>df * c\<close>, \<^verbatim>\<open>np.sign(df)\<close>.\<close>

definition frame_map :: "('a \<Rightarrow> 'b) \<Rightarrow> 'a frame \<Rightarrow> 'b frame" where
  "frame_map f df =
     \<lparr>index = index df, columns = columns df, cells = map (map f) (cells df)\<rparr>"

text \<open>An elementwise operation of two DataFrames with the same labels.\<close>

definition frame_zip :: "('a \<Rightarrow> 'b \<Rightarrow> 'c) \<Rightarrow> 'a frame \<Rightarrow> 'b frame \<Rightarrow> error + 'c frame" where
  "frame_zip f a b =
     (if index a = index b \<and> columns a = columns b
      then Inr \<lparr>index = index a, columns = columns a,
                cells = map2 (map2 f) (cells a) (cells b)\<rparr>
      else Inl Outside_Model)"

text \<open>\<^verbatim>\<open>xs[i]\<close> for a position \<open>i \<ge> 0\<close>: IndexError past the end.\<close>

definition index_at :: "'a list \<Rightarrow> nat \<Rightarrow> error + 'a" where
  "index_at xs i = (if i < length xs then Inr (xs ! i) else Inl IndexError)"

text \<open>\<^verbatim>\<open>node_results[key]\<close> on a dict (or Panel) of tables.\<close>

definition getitem :: "(string \<rightharpoonup> 'a) \<Rightarrow> string \<Rightarrow> error + 'a" where
  "getitem d key = (case d key of None \<Rightarrow> Inl KeyError | Some v \<Rightarrow> Inr v)"

section \<open>Mass and volume of contaminant consumed\<close>

text \<open>
  \<^verbatim>\<open>
  maskD = np.greater(node_results['demand'], 0) # positive demand
  deltaT = node_results['quality'].index[1] # this assumes constant timedelta
  MC = node_results['demand']*deltaT*node_results['quality']*maskD
  return MC
  \<close>
  A boolean counts as 1 or 0 in a product.
\<close>

definition mass_contaminant_consumed :: "(string \<rightharpoonup> real frame) \<Rightarrow> error + real frame" where
  "mass_contaminant_consumed node_results =
     (case getitem node_results ''demand'' of Inl e \<Rightarrow> Inl e | Inr demand \<Rightarrow>
      let maskD = frame_map (\<lambda>d. d > 0) demand in
      case getitem node_results ''quality'' of Inl e \<Rightarrow> Inl e | Inr quality \<Rightarrow>
      case index_at (index quality) 1 of Inl e \<Rightarrow> Inl e | Inr deltaT \<Rightarrow>
      case frame_zip (\<lambda>x q. x * q) (frame_map (\<lambda>d. d * deltaT) demand) quality of
        Inl e \<Rightarrow> Inl e
      | Inr dq \<Rightarrow> frame_zip (\<lambda>x m. x * of_bool m) dq maskD)"

text \<open>
  \<^verbatim>\<open>
  maskQ = np.greater(node_results['quality'], detection_limit)
  maskD = np.greater(node_results['demand'], 0) # positive demand
  deltaT = node_results['quality'].index[1] # this assumes constant timedelta
  VC = node_results['demand']*deltaT*maskQ*maskD
  return VC
  \<close>
\<close>

definition volume_contaminant_consumed ::
    "(string \<rightharpoonup> real frame) \<Rightarrow> real \<Rightarrow> error + real frame" where
  "volume_contaminant_consumed node_results detection_limit =
     (case getitem node_results ''quality'' of Inl e \<Rightarrow> Inl e | Inr quality \<Rightarrow>
      let maskQ = frame_map (\<lambda>q. q > detection_limit) quality in
      case getitem node_results ''demand'' of Inl e \<Rightarrow> Inl e | Inr demand \<Rightarrow>
      let maskD = frame_map (\<lambda>d. d > 0) demand in
      case index_at (index quality) 1 of Inl e \<Rightarrow> Inl e | Inr deltaT \<Rightarrow>
      case frame_zip (\<lambda>x m. x * of_bool m) (frame_map (\<lambda>d. d * deltaT) demand) maskQ of
        Inl e \<Rightarrow> Inl e
      | Inr dq \<Rightarrow> frame_zip (\<lambda>x m. x * of_bool m) dq maskD)"

text \<open>
  The tables of a Panel share their two axes; for a dict of tables that is a condition on
  the input.
\<close>

definition aligned :: "'a frame \<Rightarrow> 'b frame \<Rightarrow> bool" where
  "aligned a b \<longleftrightarrow> index a = index b \<and> columns a = columns b"

section \<open>Extent of contamination\<close>

text \<open>The position of a label in a list of labels (the first one).\<close>

fun position :: "'a list \<Rightarrow> 'a \<Rightarrow> nat" where
  "position [] x = 0"
| "position (y # ys) x = (if x = y then 0 else Suc (position ys x))"

text \<open>
  \<^verbatim>\<open>df.loc[:, labels]\<close>: the columns named by \<open>labels\<close>, in that order; KeyError
  when a label is not a column (pandas before 1.0 raises it only when no label is a
  column, and fills the column of a missing label with NaN otherwise).
\<close>

definition loc_columns :: "'a frame \<Rightarrow> string list \<Rightarrow> error + 'a frame" where
  "loc_columns df labels =
     (if \<not> distinct (columns df) then Inl Outside_Model
      else if \<not> list_all (\<lambda>l. l \<in> set (columns df)) labels then Inl KeyError
      else Inr \<lparr>index = index df, columns = labels,
                cells = map (\<lambda>r. map (\<lambda>l. r ! position (columns df) l) labels) (cells df)\<rparr>)"

text \<open>\<^verbatim>\<open>np.array(df)\<close>: the cells with their shape, the labels forgotten.\<close>

record 'a ndarray =
  nrows :: nat
  ncols :: nat
  data :: "'a list list"

definition np_array :: "'a frame \<Rightarrow> 'a ndarray" where
  "np_array df = \<lparr>nrows = length (index df), ncols = length (columns df), data = cells df\<rparr>"

text \<open>
  An elementwise operation of a DataFrame and a two-dimensional array: by position, and
  the result keeps the labels of the DataFrame. The shapes must be the same (pandas
  raises ValueError on most other shapes and broadcasts an array of one row or one
  column; both are left out).
\<close>

definition frame_zip_array :: "('a \<Rightarrow> 'b \<Rightarrow> 'c) \<Rightarrow> 'a frame \<Rightarrow> 'b ndarray \<Rightarrow> error + 'c frame" where
  "frame_zip_array f df arr =
     (if nrows arr = length (index df) \<and> ncols arr = length (columns df)
      then Inr \<lparr>index = index df, columns = columns df,
                cells = map2 (map2 f) (cells df) (data arr)\<rparr>
      else Inl Outside_Model)"

text \<open>
  \<^verbatim>\<open>
  flow_dir = np.sign(flow_rate.loc[:,link_names])
  node_contam = node_quality > detection_limit
  pos_flow = np.array(node_contam.loc[:,link_start_node])
  neg_flow = np.array(node_contam.loc[:,link_end_node])
  link_contam = ((flow_dir>0)&pos_flow) | ((flow_dir<0)&neg_flow)
  \<close>
  \<open>link_names\<close>, \<open>link_start_node\<close> and \<open>link_end_node\<close> are used for their values
  only, so they are lists here.
\<close>

definition link_contam_indirect ::
    "real frame \<Rightarrow> real frame \<Rightarrow> string list \<Rightarrow> string list \<Rightarrow> string list \<Rightarrow> real
       \<Rightarrow> error + bool frame" where
  "link_contam_indirect node_quality flow_rate link_names link_start_node link_end_node
       detection_limit =
     (case loc_columns flow_rate link_names of Inl e \<Rightarrow> Inl e | Inr fr \<Rightarrow>
      let flow_dir = frame_map sgn fr;
          node_contam = frame_map (\<lambda>q. q > detection_limit) node_quality in
      case loc_columns node_contam link_start_node of Inl e \<Rightarrow> Inl e | Inr ps \<Rightarrow>
      let pos_flow = np_array ps in
      case loc_columns node_contam link_end_node of Inl e \<Rightarrow> Inl e | Inr ns \<Rightarrow>
      let neg_flow = np_array ns in
      case frame_zip_array (\<lambda>a b. a \<and> b) (frame_map (\<lambda>d. d > 0) flow_dir) pos_flow of
        Inl e \<Rightarrow> Inl e
      | Inr p \<Rightarrow>
      case frame_zip_array (\<lambda>a b. a \<and> b) (frame_map (\<lambda>d. d < 0) flow_dir) neg_flow of
        Inl e \<Rightarrow> Inl e
      | Inr n \<Rightarrow> frame_zip (\<lambda>a b. a \<or> b) p n)"

text \<open>
  \<^verbatim>\<open>link_contam * link_length\<close>: a DataFrame of booleans times a Series of lengths,
  matched on the column labels (a plain list of lengths is matched by position, with the
  same result). True counts as 1, False as 0.
\<close>

definition frame_mul_series :: "bool frame \<Rightarrow> real series \<Rightarrow> error + real frame" where
  "frame_mul_series df s =
     (if columns df = map fst s
      then Inr \<lparr>index = index df, columns = columns df,
                cells = map (\<lambda>r. map2 (\<lambda>b l. of_bool b * l) r (map snd s)) (cells df)\<rparr>
      else Inl Outside_Model)"

text \<open>\<^verbatim>\<open>df.cummax()\<close>: the running maximum down every column.\<close>

fun cummax_from :: "real list \<Rightarrow> real list list \<Rightarrow> real list list" where
  "cummax_from m [] = []"
| "cummax_from m (r # rs) = (let m' = map2 max m r in m' # cummax_from m' rs)"

definition cummax :: "real frame \<Rightarrow> real frame" where
  "cummax df =
     \<lparr>index = index df, columns = columns df,
      cells = (case cells df of [] \<Rightarrow> [] | r # rs \<Rightarrow> r # cummax_from r rs)\<rparr>"

text \<open>\<^verbatim>\<open>df.sum(axis=1)\<close>: a Series over the times, the sum of every row.\<close>

definition sum_axis1 :: "real frame \<Rightarrow> (real \<times> real) list" where
  "sum_axis1 df = zip (index df) (map sum_list (cells df))"

text \<open>
  \<^verbatim>\<open>
  contam_len = (link_contam * link_length).cummax()
  ec = contam_len.sum(axis=1)
  return ec
  \<close>
\<close>

definition contam_len :: "bool frame \<Rightarrow> real series \<Rightarrow> error + real frame" where
  "contam_len link_contam link_length =
     (case frame_mul_series link_contam link_length of
        Inl e \<Rightarrow> Inl e
      | Inr scaled \<Rightarrow> Inr (cummax scaled))"

definition extent_contamination_indirect ::
    "real frame \<Rightarrow> real frame \<Rightarrow> string list \<Rightarrow> string list \<Rightarrow> string list \<Rightarrow> real series
       \<Rightarrow> real \<Rightarrow> error + (real \<times> real) list" where
  "extent_contamination_indirect node_quality flow_rate link_names link_start_node
       link_end_node link_length detection_limit =
     (case link_contam_indirect node_quality flow_rate link_names link_start_node
             link_end_node detection_limit of
        Inl e \<Rightarrow> Inl e
      | Inr link_contam \<Rightarrow>
          (case contam_len link_contam link_length of
             Inl e \<Rightarrow> Inl e
           | Inr cl \<Rightarrow> Inr (sum_axis1 cl)))"

text \<open>
  \<^verbatim>\<open>
  link_contam = link_quality > detection_limit
  contam_len = (link_contam * link_length).cummax()
  ec = contam_len.sum(axis=1)
  return ec
  \<close>
\<close>

definition link_contam_direct :: "real frame \<Rightarrow> real \<Rightarrow> bool frame" where
  "link_contam_direct link_quality detection_limit =
     frame_map (\<lambda>q. q > detection_limit) link_quality"

definition extent_contamination_direct ::
    "real frame \<Rightarrow> real series \<Rightarrow> real \<Rightarrow> error + (real \<times> real) list" where
  "extent_contamination_direct link_quality link_length detection_limit =
     (case contam_len (link_contam_direct link_quality detection_limit) link_length of
        Inl e \<Rightarrow> Inl e
      | Inr cl \<Rightarrow> Inr (sum_axis1 cl))"

text \<open>
  The cell of a table at a row position and a column label, and the words of the
  contract: a link is contaminated at a step when the water entering it, from its start
  node under a positive flow and from its end node under a negative flow, is above the
  detection limit; it is marked from the first such step on.
\<close>

definition at_label :: "'a frame \<Rightarrow> nat \<Rightarrow> string \<Rightarrow> 'a" where
  "at_label df i l = cell df i (position (columns df) l)"

definition contaminated_at ::
    "real frame \<Rightarrow> real frame \<Rightarrow> string list \<Rightarrow> string list \<Rightarrow> string list \<Rightarrow> real
       \<Rightarrow> nat \<Rightarrow> nat \<Rightarrow> bool" where
  "contaminated_at node_quality flow_rate link_names link_start_node link_end_node
       detection_limit i k \<longleftrightarrow>
     (at_label flow_rate i (link_names ! k) > 0 \<and>
        at_label node_quality i (link_start_node ! k) > detection_limit) \<or>
     (at_label flow_rate i (link_names ! k) < 0 \<and>
        at_label node_quality i (link_end_node ! k) > detection_limit)"

definition marked :: "(nat \<Rightarrow> nat \<Rightarrow> bool) \<Rightarrow> nat \<Rightarrow> nat \<Rightarrow> bool" where
  "marked contaminated i k \<longleftrightarrow> (\<exists>j \<in> {..i}. contaminated j k)"

text \<open>
  The inputs the embedding covers: tables with one row of cells per time and one cell per
  column, distinct column labels, as many rows of flows as of qualities, every link with
  its flow column, its two end nodes with their quality columns, and its length.
\<close>

definition indirect_inputs ::
    "real frame \<Rightarrow> real frame \<Rightarrow> string list \<Rightarrow> string list \<Rightarrow> string list \<Rightarrow> real series
       \<Rightarrow> bool" where
  "indirect_inputs node_quality flow_rate link_names link_start_node link_end_node
       link_length \<longleftrightarrow>
     wf_frame node_quality \<and> wf_frame flow_rate \<and>
     distinct (columns node_quality) \<and> distinct (columns flow_rate) \<and>
     length (index node_quality) = length (index flow_rate) \<and>
     list_all (\<lambda>l. l \<in> set (columns flow_rate)) link_names \<and>
     list_all (\<lambda>l. l \<in> set (columns node_quality)) link_start_node \<and>
     list_all (\<lambda>l. l \<in> set (columns node_quality)) link_end_node \<and>
     length link_start_node = length link_names \<and>
     length link_end_node = length link_names \<and>
     map fst link_length = link_names"

definition direct_inputs :: "real frame \<Rightarrow> real series \<Rightarrow> bool" where
  "direct_inputs link_quality link_length \<longleftrightarrow>
     wf_frame link_quality \<and> map fst link_length = columns link_quality"

section \<open>Patterns, time series and demands\<close>

text \<open>
  The classes Pattern, TimeSeries and Demands live in \<^verbatim>\<open>wntr/network/elements.py\<close>,
  which is not among the sources at hand: only their tests are
  (\<^verbatim>\<open>wntr/network/tests/test_elements.py\<close>). The definitions of this section follow
  the specification, and the assertions of the tests are checked against them below.
\<close>

record pattern =
  name :: string
  multipliers :: "real list"
  step_size :: real
  wrap :: bool

text \<open>
  Modelled from the spec: the constructor of Pattern (elements.py is missing). It keeps a
  name, a copy of the multipliers, the step size and the wrap flag.
\<close>

definition Pattern :: "string \<Rightarrow> real list \<Rightarrow> real \<Rightarrow> bool \<Rightarrow> pattern" where
  "Pattern nm ms step wr = \<lparr>name = nm, multipliers = ms, step_size = step, wrap = wr\<rparr>"

text \<open>
  Modelled from the spec: the equality of Pattern (elements.py is missing). Two patterns are
  equal iff their multiplier sequences, step sizes and wrap flags are equal; the name is
  excluded.
\<close>

definition pattern_eq :: "pattern \<Rightarrow> pattern \<Rightarrow> bool" where
  "pattern_eq p q \<longleftrightarrow>
     multipliers p = multipliers q \<and> step_size p = step_size q \<and> wrap p = wrap q"

text \<open>
  Modelled from the spec: Pattern.__getitem__ and Pattern.at (elements.py is missing).
  "Given a raw time coordinate, compute the step index = floor(time / step_size). If wrap
  is true, reduce index modulo pattern length (length 0: multiplier is always 1). If wrap
  is false, indices outside [0, length) yield 0.0. If length is 0, always return 1.0
  regardless of wrap." The step size is positive in the data model; Python raises
  ZeroDivisionError on a step size of 0, which the quotient of HOL does not show.
\<close>

definition pattern_getitem :: "pattern \<Rightarrow> int \<Rightarrow> real" where
  "pattern_getitem p step =
     (let nmult = int (length (multipliers p)) in
      if nmult = 0 then 1
      else if wrap p then multipliers p ! nat (step mod nmult)
      else if step < 0 \<or> nmult \<le> step then 0
      else multipliers p ! nat step)"

definition pattern_at :: "pattern \<Rightarrow> real \<Rightarrow> real" where
  "pattern_at p time = pattern_getitem p \<lfloor>time / step_size p\<rfloor>"

text \<open>
  Modelled from the spec: Pattern.BinaryPattern (elements.py is missing). It "builds a full
  multiplier array of length ceil(duration / step_size), set to 1 over the half-open
  interval [start_time, end_time) in step units and 0 elsewhere; wrap defaults to false".
\<close>

definition BinaryPattern :: "string \<Rightarrow> real \<Rightarrow> real \<Rightarrow> real \<Rightarrow> real \<Rightarrow> pattern" where
  "BinaryPattern nm start_time end_time step duration =
     (let patternstart = start_time / step;
          patternend = end_time / step;
          patterndur = nat \<lceil>duration / step\<rceil>
      in Pattern nm
           (map (\<lambda>i. if patternstart \<le> real i \<and> real i < patternend then 1 else 0)
              [0..<patterndur])
           step False)"

text \<open>
  A multiplier list written by hand for the same square wave: one entry per step of the
  duration, 1 on the steps that begin at a time in [start_time, end_time) and 0 on the
  others.
\<close>

definition manual_binary :: "real \<Rightarrow> real \<Rightarrow> real \<Rightarrow> real \<Rightarrow> real list \<Rightarrow> bool" where
  "manual_binary start_time end_time step duration ms \<longleftrightarrow>
     length ms = nat \<lceil>duration / step\<rceil> \<and>
     list_all (\<lambda>i. ms ! i = (if start_time \<le> real i * step \<and> real i * step < end_time
                               then 1 else 0))
       [0..<length ms]"

record timeseries =
  base :: real
  pattern :: "pattern option"
  category :: "string option"

text \<open>The values a caller can pass to a constructor of the untyped program.\<close>

datatype pyobj = PyNone | PyInt int | PyFloat real | PyStr string | PyPattern pattern

fun is_numeric :: "pyobj \<Rightarrow> bool" where
  "is_numeric (PyInt n) = True"
| "is_numeric (PyFloat x) = True"
| "is_numeric v = False"

fun numeric_value :: "pyobj \<Rightarrow> real" where
  "numeric_value (PyInt n) = of_int n"
| "numeric_value (PyFloat x) = x"
| "numeric_value v = 0"

fun is_pattern_or_none :: "pyobj \<Rightarrow> bool" where
  "is_pattern_or_none PyNone = True"
| "is_pattern_or_none (PyPattern p) = True"
| "is_pattern_or_none v = False"

fun pattern_value :: "pyobj \<Rightarrow> pattern option" where
  "pattern_value (PyPattern p) = Some p"
| "pattern_value v = None"

text \<open>
  Modelled from the spec: the constructor of TimeSeries (elements.py is missing). It "fails
  with a validation error if base is not numeric, or if pattern is neither None nor a
  Pattern"; the tests expect ValueError.
\<close>

definition TimeSeries :: "pyobj \<Rightarrow> pyobj \<Rightarrow> string option \<Rightarrow> error + timeseries" where
  "TimeSeries b p c =
     (if \<not> is_numeric b then Inl ValueError
      else if \<not> is_pattern_or_none p then Inl ValueError
      else Inr \<lparr>base = numeric_value b, pattern = pattern_value p, category = c\<rparr>)"

text \<open>
  Modelled from the spec: TimeSeries.at (elements.py is missing): "base when no pattern,
  else base times pattern.at(time)".
\<close>

definition timeseries_at :: "timeseries \<Rightarrow> real \<Rightarrow> real" where
  "timeseries_at ts time =
     (case pattern ts of None \<Rightarrow> base ts | Some p \<Rightarrow> base ts * pattern_at p time)"

text \<open>
  Modelled from the spec: Demands.at(time, category=None) (elements.py is missing): the "sum
  of member.at(time) over all members, or only members whose category equals the filter
  when given", written as the loop over the members with a running total. A filter of
  \<open>None\<close> is no filter.
\<close>

fun demands_at_loop :: "timeseries list \<Rightarrow> real \<Rightarrow> string option \<Rightarrow> real \<Rightarrow> real" where
  "demands_at_loop [] time cat acc = acc"
| "demands_at_loop (dem # rest) time cat acc =
     demands_at_loop rest time cat
       (if cat = None \<or> category dem = cat then acc + timeseries_at dem time else acc)"

definition demands_at :: "timeseries list \<Rightarrow> real \<Rightarrow> string option \<Rightarrow> real" where
  "demands_at demands time cat = demands_at_loop demands time cat 0"

section \<open>Example inputs\<close>

text \<open>
  Two nodes over three reporting times, and a network of three pipes \<open>P1\<close> (from A to
  B), \<open>P2\<close> (from B to C) and \<open>P3\<close> (from C to A). The flow table lists its columns
  in another order than the link names.
\<close>

definition example_demand :: "real frame" where
  "example_demand =
     \<lparr>index = [0, 900, 1800], columns = [''121'', ''River''],
      cells = [[2, - 5], [0, - 5], [3, - 4]]\<rparr>"

definition example_quality :: "real frame" where
  "example_quality =
     \<lparr>index = [0, 900, 1800], columns = [''121'', ''River''],
      cells = [[4, 100], [7, 100], [1 / 2, 100]]\<rparr>"

definition example_node_results :: "string \<rightharpoonup> real frame" where
  "example_node_results =
     [''demand'' \<mapsto> example_demand, ''quality'' \<mapsto> example_quality]"

definition example_node_quality :: "real frame" where
  "example_node_quality =
     \<lparr>index = [0, 3600, 7200], columns = [''A'', ''B'', ''C''],
      cells = [[5, 3, 0], [5, 2, 0], [0, 0, 0]]\<rparr>"

definition example_flow_rate :: "real frame" where
  "example_flow_rate =
     \<lparr>index = [0, 3600, 7200], columns = [''P2'', ''P1'', ''P3''],
      cells = [[0, 1, 1], [2, 1, - 1], [0, - 1, 0]]\<rparr>"

definition example_link_names :: "string list" where
  "example_link_names = [''P1'', ''P2'', ''P3'']"

definition example_link_start :: "string list" where
  "example_link_start = [''A'', ''B'', ''C'']"

definition example_link_end :: "string list" where
  "example_link_end = [''B'', ''C'', ''A'']"

definition example_link_length :: "real series" where
  "example_link_length = [(''P1'', 100), (''P2'', 250), (''P3'', 40)]"

definition example_link_quality :: "real frame" where
  "example_link_quality =
     \<lparr>index = [0, 3600, 7200], columns = [''P1'', ''P2'', ''P3''],
      cells = [[1, 0, 0], [0, 4, 0], [0, 0, 0]]\<rparr>"

text \<open>The three demands of \<^verbatim>\<open>test_Demands\<close>.\<close>

definition example_demands :: "timeseries list" where
  "example_demands =
     [\<lparr>base = 2.5, pattern = Some (Pattern ''1'' [0.5, 1.0, 0.4, 0.2] 10 True),
       category = Some ''_base_demand''\<rparr>,
      \<lparr>base = 1.0, pattern = Some (Pattern ''2'' [1.0, 1.2, 1.0] 10 True),
       category = Some ''residential''\<rparr>,
      \<lparr>base = 0.8, pattern = Some (Pattern ''2'' [1.0, 1.2, 1.0] 10 True),
       category = Some ''residential''\<rparr>]"

text \<open>
  The running maximum of a sequence, to state what \<open>cummax\<close> computes in a column.
\<close>

fun running_max :: "(nat \<Rightarrow> real) \<Rightarrow> nat \<Rightarrow> real" where
  "running_max f 0 = f 0"
| "running_max f (Suc i) = max (running_max f i) (f (Suc i))"

section \<open>Cells of the elementwise operations\<close>

lemma wf_frame_row:
  assumes "wf_frame df" and "i < length (index df)"
  shows "length (cells df ! i) = length (columns df)"
  using assms by (simp add: wf_frame_def list_all_length)

lemma wf_frame_map: "wf_frame df \<Longrightarrow> wf_frame (frame_map f df)"
  by (simp add: wf_frame_def frame_map_def list_all_length)

lemma frame_map_labels:
  "index (frame_map f df) = index df" "columns (frame_map f df) = columns df"
  by (simp_all add: frame_map_def)

lemma cell_frame_map:
  assumes "wf_frame df" and "i < length (index df)" and "k < length (columns df)"
  shows "cell (frame_map f df) i k = f (cell df i k)"
proof -
  have "i < length (cells df)" using assms by (simp add: wf_frame_def)
  moreover have "k < length (cells df ! i)" using assms by (simp add: wf_frame_row)
  ultimately show ?thesis by (simp add: cell_def frame_map_def)
qed

lemma frame_zip_aligned:
  assumes "aligned a b"
  shows "frame_zip f a b =
    Inr \<lparr>index = index a, columns = columns a, cells = map2 (map2 f) (cells a) (cells b)\<rparr>"
  using assms by (simp add: frame_zip_def aligned_def)

lemma wf_frame_zip:
  assumes "wf_frame a" and "wf_frame b" and "aligned a b"
  shows "wf_frame \<lparr>index = index a, columns = columns a,
                   cells = map2 (map2 f) (cells a) (cells b)\<rparr>"
  using assms by (simp add: wf_frame_def aligned_def list_all_length)

lemma cell_frame_zip:
  assumes "wf_frame a" and "wf_frame b" and "aligned a b"
    and "i < length (index a)" and "k < length (columns a)"
  shows "cell \<lparr>index = index a, columns = columns a,
               cells = map2 (map2 f) (cells a) (cells b)\<rparr> i k = f (cell a i k) (cell b i k)"
proof -
  have la: "i < length (cells a)" and lb: "i < length (cells b)"
    using assms by (simp_all add: wf_frame_def aligned_def)
  have ka: "k < length (cells a ! i)" using assms by (simp add: wf_frame_row)
  have kb: "k < length (cells b ! i)" using assms by (simp add: wf_frame_row aligned_def)
  show ?thesis using la lb ka kb by (simp add: cell_def)
qed

lemma consumed_cells:
  assumes wd: "wf_frame demand" and wq: "wf_frame (other :: 'a frame)" and al: "aligned demand other"
    and i: "i < length (index demand)" and k: "k < length (columns demand)"
  shows "cell \<lparr>index = index demand, columns = columns demand,
      cells = map2 (map2 g)
        (map2 (map2 f) (map (map h) (cells demand)) (cells other))
        (map (map m) (cells demand))\<rparr> i k
    = g (f (h (cell demand i k)) (cell other i k)) (m (cell demand i k))"
proof -
  have la: "i < length (cells demand)" and lb: "i < length (cells other)"
    using wd wq al i by (simp_all add: wf_frame_def aligned_def)
  have ka: "k < length (cells demand ! i)" using wd i k by (simp add: wf_frame_row)
  have kb: "k < length (cells other ! i)" using wq al i k by (simp add: wf_frame_row aligned_def)
  show ?thesis using la lb ka kb by (simp add: cell_def)
qed

lemma consumed_wf:
  assumes wd: "wf_frame demand" and wq: "wf_frame (other :: 'a frame)" and al: "aligned demand other"
  shows "wf_frame \<lparr>index = index demand, columns = columns demand,
      cells = map2 (map2 g)
        (map2 (map2 f) (map (map h) (cells demand)) (cells other))
        (map (map m) (cells demand))\<rparr>"
  using assms by (simp add: wf_frame_def aligned_def list_all_length)

section \<open>Selecting columns, running maxima and row sums\<close>

lemma position_less: "x \<in> set ys \<Longrightarrow> position ys x < length ys"
  by (induction ys) auto

lemma loc_columns_value:
  assumes "distinct (columns df)" and "list_all (\<lambda>l. l \<in> set (columns df)) labels"
  shows "loc_columns df labels =
     Inr \<lparr>index = index df, columns = labels,
          cells = map (\<lambda>r. map (\<lambda>l. r ! position (columns df) l) labels) (cells df)\<rparr>"
  using assms by (simp add: loc_columns_def)

lemma loc_columns_wf:
  assumes "wf_frame df"
  shows "wf_frame \<lparr>index = index df, columns = labels,
          cells = map (\<lambda>r. map (\<lambda>l. r ! position (columns df) l) labels) (cells df)\<rparr>"
  using assms by (simp add: wf_frame_def list_all_length)

lemma loc_columns_cell:
  assumes "wf_frame df" and "i < length (index df)" and "k < length labels"
  shows "cell \<lparr>index = index df, columns = labels,
          cells = map (\<lambda>r. map (\<lambda>l. r ! position (columns df) l) labels) (cells df)\<rparr> i k
       = at_label df i (labels ! k)"
  using assms by (simp add: cell_def at_label_def wf_frame_def)

lemma at_label_frame_map:
  assumes "wf_frame df" and "i < length (index df)" and "l \<in> set (columns df)"
  shows "at_label (frame_map f df) i l = f (at_label df i l)"
  using assms by (simp add: at_label_def frame_map_labels cell_frame_map position_less)


lemma loc_columns_spec:
  assumes "wf_frame df" and "distinct (columns df)"
    and "list_all (\<lambda>l. l \<in> set (columns df)) labels"
  shows "\<exists>r. loc_columns df labels = Inr r \<and> index r = index df \<and> columns r = labels
     \<and> wf_frame r
     \<and> (\<forall>i < length (index df). \<forall>k < length labels. cell r i k = at_label df i (labels ! k))"
  using assms loc_columns_wf [OF assms(1), of labels]
  by (simp add: loc_columns_value loc_columns_cell)

lemma frame_zip_array_spec:
  assumes "wf_frame df" and "wf_frame b"
    and "length (index b) = length (index df)" and "length (columns b) = length (columns df)"
  shows "\<exists>r. frame_zip_array f df (np_array b) = Inr r \<and> index r = index df
     \<and> columns r = columns df \<and> wf_frame r
     \<and> (\<forall>i < length (index df). \<forall>k < length (columns df).
           cell r i k = f (cell df i k) (cell b i k))"
proof -
  let ?r = "\<lparr>index = index df, columns = columns df,
             cells = map2 (map2 f) (cells df) (cells b)\<rparr>"
  have v: "frame_zip_array f df (np_array b) = Inr ?r"
    using assms(3,4) by (simp add: frame_zip_array_def np_array_def)
  have w: "wf_frame ?r"
    using assms by (simp add: wf_frame_def list_all_length)
  have c: "cell ?r i k = f (cell df i k) (cell b i k)"
    if "i < length (index df)" and "k < length (columns df)" for i k
  proof -
    have "i < length (cells df)" "i < length (cells b)"
      using assms that by (simp_all add: wf_frame_def)
    moreover have "k < length (cells df ! i)" "k < length (cells b ! i)"
      using assms that by (simp_all add: wf_frame_row)
    ultimately show ?thesis by (simp add: cell_def)
  qed
  show ?thesis using v w c by simp
qed

lemma frame_zip_spec:
  assumes "wf_frame a" and "wf_frame b" and "aligned a b"
  shows "\<exists>r. frame_zip f a b = Inr r \<and> index r = index a \<and> columns r = columns a
     \<and> wf_frame r
     \<and> (\<forall>i < length (index a). \<forall>k < length (columns a).
           cell r i k = f (cell a i k) (cell b i k))"
  using assms wf_frame_zip [OF assms, of f]
  by (simp add: frame_zip_aligned cell_frame_zip)

lemma link_contam_indirect_spec:
  assumes ok: "indirect_inputs node_quality flow_rate link_names link_start_node link_end_node
      link_length"
  shows "\<exists>lc. link_contam_indirect node_quality flow_rate link_names link_start_node
        link_end_node detection_limit = Inr lc
     \<and> index lc = index flow_rate \<and> columns lc = link_names \<and> wf_frame lc
     \<and> (\<forall>i < length (index flow_rate). \<forall>k < length link_names.
           cell lc i k = contaminated_at node_quality flow_rate link_names link_start_node
             link_end_node detection_limit i k)"
proof -
  let ?T = "length (index flow_rate)" and ?M = "length link_names"
  let ?node_contam = "frame_map (\<lambda>q. q > detection_limit) node_quality"
  from ok have wq: "wf_frame node_quality" and wf: "wf_frame flow_rate"
    and dq: "distinct (columns node_quality)" and df: "distinct (columns flow_rate)"
    and rows: "length (index node_quality) = ?T"
    and names: "list_all (\<lambda>l. l \<in> set (columns flow_rate)) link_names"
    and starts: "list_all (\<lambda>l. l \<in> set (columns node_quality)) link_start_node"
    and ends: "list_all (\<lambda>l. l \<in> set (columns node_quality)) link_end_node"
    and ls: "length link_start_node = ?M" and le: "length link_end_node = ?M"
    by (simp_all add: indirect_inputs_def)
  obtain fr where fr: "loc_columns flow_rate link_names = Inr fr"
    and fr_i: "index fr = index flow_rate" and fr_c: "columns fr = link_names"
    and fr_w: "wf_frame fr"
    and fr_cell: "\<And>i k. i < ?T \<Longrightarrow> k < ?M \<Longrightarrow>
        cell fr i k = at_label flow_rate i (link_names ! k)"
    using loc_columns_spec [OF wf df names] by blast
  have nc_w: "wf_frame ?node_contam" using wq by (rule wf_frame_map)
  have nc_d: "distinct (columns ?node_contam)" using dq by (simp add: frame_map_labels)
  obtain ps where ps: "loc_columns ?node_contam link_start_node = Inr ps"
    and ps_i: "index ps = index node_quality" and ps_c: "columns ps = link_start_node"
    and ps_w: "wf_frame ps"
    and ps_cell: "\<And>i k. i < ?T \<Longrightarrow> k < ?M \<Longrightarrow>
        cell ps i k = at_label ?node_contam i (link_start_node ! k)"
    using loc_columns_spec [OF nc_w nc_d, of link_start_node] starts rows ls
    by (auto simp add: frame_map_labels)
  obtain ns where ns: "loc_columns ?node_contam link_end_node = Inr ns"
    and ns_i: "index ns = index node_quality" and ns_c: "columns ns = link_end_node"
    and ns_w: "wf_frame ns"
    and ns_cell: "\<And>i k. i < ?T \<Longrightarrow> k < ?M \<Longrightarrow>
        cell ns i k = at_label ?node_contam i (link_end_node ! k)"
    using loc_columns_spec [OF nc_w nc_d, of link_end_node] ends rows le
    by (auto simp add: frame_map_labels)
  let ?flow_dir = "frame_map sgn fr"
  let ?up = "frame_map (\<lambda>d. d > 0) ?flow_dir" and ?down = "frame_map (\<lambda>d. d < 0) ?flow_dir"
  have fd_w: "wf_frame ?flow_dir" using fr_w by (rule wf_frame_map)
  have up_w: "wf_frame ?up" and down_w: "wf_frame ?down"
    using fd_w by (rule wf_frame_map)+
  have up_cell: "cell ?up i k = (at_label flow_rate i (link_names ! k) > 0)"
    and down_cell: "cell ?down i k = (at_label flow_rate i (link_names ! k) < 0)"
    if "i < ?T" and "k < ?M" for i k
    using that fr_w fd_w fr_i fr_c fr_cell
    by (simp_all add: cell_frame_map frame_map_labels)
  obtain p where p: "frame_zip_array (\<lambda>a b. a \<and> b) ?up (np_array ps) = Inr p"
    and p_i: "index p = index flow_rate" and p_c: "columns p = link_names"
    and p_w: "wf_frame p"
    and p_cell: "\<And>i k. i < ?T \<Longrightarrow> k < ?M \<Longrightarrow> cell p i k = (cell ?up i k \<and> cell ps i k)"
    using frame_zip_array_spec [OF up_w ps_w, of "\<lambda>a b. a \<and> b"] ps_i ps_c fr_i fr_c rows ls
    by (auto simp add: frame_map_labels)
  obtain n where n: "frame_zip_array (\<lambda>a b. a \<and> b) ?down (np_array ns) = Inr n"
    and n_i: "index n = index flow_rate" and n_c: "columns n = link_names"
    and n_w: "wf_frame n"
    and n_cell: "\<And>i k. i < ?T \<Longrightarrow> k < ?M \<Longrightarrow> cell n i k = (cell ?down i k \<and> cell ns i k)"
    using frame_zip_array_spec [OF down_w ns_w, of "\<lambda>a b. a \<and> b"] ns_i ns_c fr_i fr_c rows le
    by (auto simp add: frame_map_labels)
  have al: "aligned p n" using p_i p_c n_i n_c by (simp add: aligned_def)
  obtain lc where lc: "frame_zip (\<lambda>a b. a \<or> b) p n = Inr lc"
    and lc_i: "index lc = index flow_rate" and lc_c: "columns lc = link_names"
    and lc_w: "wf_frame lc"
    and lc_cell: "\<And>i k. i < ?T \<Longrightarrow> k < ?M \<Longrightarrow> cell lc i k = (cell p i k \<or> cell n i k)"
    using frame_zip_spec [OF p_w n_w al, of "\<lambda>a b. a \<or> b"] p_i p_c
    by auto
  have v: "link_contam_indirect node_quality flow_rate link_names link_start_node
        link_end_node detection_limit = Inr lc"
    using fr ps ns p n lc by (simp add: link_contam_indirect_def)
  have c: "cell lc i k = contaminated_at node_quality flow_rate link_names link_start_node
             link_end_node detection_limit i k"
    if i: "i < ?T" and k: "k < ?M" for i k
  proof -
    have s: "link_start_node ! k \<in> set (columns node_quality)"
      and e: "link_end_node ! k \<in> set (columns node_quality)"
      using starts ends ls le k by (simp_all add: list_all_length)
    have "at_label ?node_contam i (link_start_node ! k)
        = (at_label node_quality i (link_start_node ! k) > detection_limit)"
      using wq i rows s by (simp add: at_label_frame_map)
    moreover have "at_label ?node_contam i (link_end_node ! k)
        = (at_label node_quality i (link_end_node ! k) > detection_limit)"
      using wq i rows e by (simp add: at_label_frame_map)
    ultimately show ?thesis
      using i k by (simp add: lc_cell p_cell n_cell up_cell down_cell ps_cell ns_cell
          contaminated_at_def)
  qed
  show ?thesis using v lc_i lc_c lc_w c by simp
qed


lemma running_max_shift:
  "running_max f (Suc i) = max (f 0) (running_max (\<lambda>j. f (Suc j)) i)"
  by (induction i) (simp_all add: max.assoc)

lemma running_max_mono: "i \<le> j \<Longrightarrow> running_max f i \<le> running_max f j"
proof (induction j)
  case 0
  then show ?case by simp
next
  case (Suc j)
  then show ?case by (cases "i = Suc j") (simp_all add: le_max_iff_disj)
qed

lemma running_max_flag:
  assumes "0 \<le> l"
  shows "running_max (\<lambda>j. of_bool (b j) * l) i = of_bool (\<exists>j \<in> {..i}. b j) * l"
proof (induction i)
  case 0
  then show ?case by simp
next
  case (Suc i)
  have "(\<exists>j \<in> {..Suc i}. b j) \<longleftrightarrow> (\<exists>j \<in> {..i}. b j) \<or> b (Suc i)"
    by (auto simp add: le_Suc_eq)
  then show ?case using Suc assms by (simp add: max_def)
qed

lemma length_cummax_from: "length (cummax_from m rs) = length rs"
  by (induction rs arbitrary: m) (simp_all add: Let_def)

lemma cummax_from_row_length:
  assumes "list_all (\<lambda>r. length r = length m) rs" and "i < length rs"
  shows "length (cummax_from m rs ! i) = length m"
  using assms
proof (induction rs arbitrary: m i)
  case Nil
  then show ?case by simp
next
  case (Cons r rs)
  then show ?case by (cases i) (simp_all add: Let_def)
qed

lemma cummax_from_cell:
  assumes "list_all (\<lambda>r. length r = length m) rs" and "i < length rs" and "k < length m"
  shows "length (cummax_from m rs ! i) = length m
     \<and> cummax_from m rs ! i ! k = max (m ! k) (running_max (\<lambda>j. rs ! j ! k) i)"
  using assms
proof (induction rs arbitrary: m i)
  case Nil
  then show ?case by simp
next
  case (Cons r rs)
  let ?m = "map2 max m r"
  have lr: "length r = length m" using Cons.prems(1) by simp
  then have lm: "length ?m = length m" by simp
  have mk: "?m ! k = max (m ! k) (r ! k)" using lr Cons.prems(3) by simp
  show ?case
  proof (cases i)
    case 0
    then show ?thesis using lm mk by (simp add: Let_def)
  next
    case (Suc i')
    have all: "list_all (\<lambda>r. length r = length ?m) rs"
      using Cons.prems(1) lm by simp
    have i': "i' < length rs" using Cons.prems(2) Suc by simp
    have k': "k < length ?m" using Cons.prems(3) lm by simp
    have ih: "length (cummax_from ?m rs ! i') = length ?m
        \<and> cummax_from ?m rs ! i' ! k = max (?m ! k) (running_max (\<lambda>j. rs ! j ! k) i')"
      using Cons.IH [OF all i' k'] .
    have sh: "running_max (\<lambda>j. (r # rs) ! j ! k) (Suc i')
        = max (r ! k) (running_max (\<lambda>j. rs ! j ! k) i')"
      by (simp only: running_max_shift) simp
    show ?thesis
      using ih lm mk Suc by (simp add: Let_def sh max.assoc del: running_max.simps)
  qed
qed

lemma cummax_spec:
  assumes "wf_frame df"
  shows "index (cummax df) = index df \<and> columns (cummax df) = columns df
     \<and> wf_frame (cummax df)
     \<and> (\<forall>i < length (index df). \<forall>k < length (columns df).
           cell (cummax df) i k = running_max (\<lambda>j. cell df j k) i)"
proof (cases "cells df")
  case Nil
  then show ?thesis using assms by (simp add: cummax_def wf_frame_def)
next
  case (Cons r rs)
  have lr: "length r = length (columns df)"
    and all: "list_all (\<lambda>s. length s = length r) rs"
    and rows: "length (index df) = Suc (length rs)"
    using assms Cons by (simp_all add: wf_frame_def)
  have cs: "cells (cummax df) = r # cummax_from r rs"
    using Cons by (simp add: cummax_def)
  have lab: "index (cummax df) = index df" "columns (cummax df) = columns df"
    by (simp_all add: cummax_def)
  have row: "length ((r # cummax_from r rs) ! n) = length (columns df)"
    if "n < Suc (length rs)" for n
  proof (cases n)
    case 0
    then show ?thesis using lr by simp
  next
    case (Suc n')
    then have "n' < length rs" using that by simp
    then show ?thesis
      using cummax_from_row_length [OF all, of n'] lr Suc by simp
  qed
  have w: "wf_frame (cummax df)"
    using rows row by (simp add: wf_frame_def cs lab list_all_length length_cummax_from)
  have c: "cell (cummax df) i k = running_max (\<lambda>j. cell df j k) i"
    if i: "i < length (index df)" and k: "k < length (columns df)" for i k
  proof (cases i)
    case 0
    then show ?thesis using Cons by (simp add: cell_def cs)
  next
    case (Suc i')
    have "i' < length rs" using i rows Suc by simp
    then have "cummax_from r rs ! i' ! k = max (r ! k) (running_max (\<lambda>j. rs ! j ! k) i')"
      using cummax_from_cell [OF all, of i' k] k lr by simp
    moreover have "running_max (\<lambda>j. (r # rs) ! j ! k) (Suc i')
        = max (r ! k) (running_max (\<lambda>j. rs ! j ! k) i')"
      by (simp only: running_max_shift) simp
    ultimately show ?thesis
      using Suc Cons by (simp add: cell_def cs del: running_max.simps)
  qed
  show ?thesis using w c lab by simp
qed

lemma frame_mul_series_spec:
  assumes "wf_frame df" and "columns df = map fst s"
  shows "\<exists>r. frame_mul_series df s = Inr r \<and> index r = index df \<and> columns r = columns df
     \<and> wf_frame r
     \<and> (\<forall>i < length (index df). \<forall>k < length (columns df).
           cell r i k = of_bool (cell df i k) * snd (s ! k))"
proof -
  let ?r = "\<lparr>index = index df, columns = columns df,
      cells = map (\<lambda>r. map2 (\<lambda>b l. of_bool b * l) r (map snd s)) (cells df)\<rparr>"
  have ls: "length s = length (columns df)" using assms(2) by simp
  have v: "frame_mul_series df s = Inr ?r"
    using assms(2) by (simp add: frame_mul_series_def)
  have w: "wf_frame ?r"
    using assms(1) ls by (simp add: wf_frame_def list_all_length)
  have c: "cell ?r i k = of_bool (cell df i k) * snd (s ! k)"
    if "i < length (index df)" and "k < length (columns df)" for i k
  proof -
    have "i < length (cells df)" using assms(1) that by (simp add: wf_frame_def)
    moreover have "k < length (cells df ! i)" using assms(1) that by (simp add: wf_frame_row)
    ultimately show ?thesis using ls that by (simp add: cell_def)
  qed
  show ?thesis using v w c by simp
qed

lemma sum_axis1_spec:
  assumes "wf_frame df"
  shows "map fst (sum_axis1 df) = index df \<and> length (sum_axis1 df) = length (index df)
     \<and> (\<forall>i < length (index df).
           snd (sum_axis1 df ! i) = (\<Sum>k < length (columns df). cell df i k))"
proof -
  have l: "length (cells df) = length (index df)" using assms by (simp add: wf_frame_def)
  have "snd (sum_axis1 df ! i) = (\<Sum>k < length (columns df). cell df i k)"
    if "i < length (index df)" for i
  proof -
    have "sum_list (cells df ! i) = (\<Sum>k < length (cells df ! i). cells df ! i ! k)"
      by (simp add: sum_list_sum_nth atLeast0LessThan)
    then show ?thesis
      using that l assms by (simp add: sum_axis1_def cell_def wf_frame_row)
  qed
  then show ?thesis using l by (simp add: sum_axis1_def)
qed


lemma running_max_cong:
  "(\<And>j. j \<le> i \<Longrightarrow> f j = g j) \<Longrightarrow> running_max f i = running_max g i"
  by (induction i) simp_all

lemma contam_len_spec:
  assumes "wf_frame lc" and "columns lc = map fst ll"
  shows "\<exists>cl. contam_len lc ll = Inr cl \<and> index cl = index lc \<and> columns cl = columns lc
     \<and> wf_frame cl
     \<and> (\<forall>i < length (index lc). \<forall>k < length (columns lc).
           cell cl i k = running_max (\<lambda>j. of_bool (cell lc j k) * snd (ll ! k)) i)"
proof -
  obtain sc where sc: "frame_mul_series lc ll = Inr sc"
    and sc_i: "index sc = index lc" and sc_c: "columns sc = columns lc"
    and sc_w: "wf_frame sc"
    and sc_cell: "\<And>i k. i < length (index lc) \<Longrightarrow> k < length (columns lc) \<Longrightarrow>
        cell sc i k = of_bool (cell lc i k) * snd (ll ! k)"
    using frame_mul_series_spec [OF assms] by blast
  have v: "contam_len lc ll = Inr (cummax sc)"
    using sc by (simp add: contam_len_def)
  have c: "cell (cummax sc) i k = running_max (\<lambda>j. of_bool (cell lc j k) * snd (ll ! k)) i"
    if i: "i < length (index lc)" and k: "k < length (columns lc)" for i k
  proof -
    have "cell (cummax sc) i k = running_max (\<lambda>j. cell sc j k) i"
      using cummax_spec [OF sc_w] i k sc_i sc_c by simp
    also have "\<dots> = running_max (\<lambda>j. of_bool (cell lc j k) * snd (ll ! k)) i"
      using i k by (intro running_max_cong sc_cell) simp_all
    finally show ?thesis .
  qed
  show ?thesis
    using v c cummax_spec [OF sc_w] sc_i sc_c by simp
qed

lemma extent_spec:
  assumes "wf_frame lc" and "columns lc = map fst ll"
  shows "\<exists>cl. contam_len lc ll = Inr cl
     \<and> map fst (sum_axis1 cl) = index lc \<and> length (sum_axis1 cl) = length (index lc)
     \<and> (\<forall>i < length (index lc).
           snd (sum_axis1 cl ! i) =
             (\<Sum>k < length (columns lc).
                running_max (\<lambda>j. of_bool (cell lc j k) * snd (ll ! k)) i))"
proof -
  obtain cl where cl: "contam_len lc ll = Inr cl"
    and cl_i: "index cl = index lc" and cl_c: "columns cl = columns lc"
    and cl_w: "wf_frame cl"
    and cl_cell: "\<And>i k. i < length (index lc) \<Longrightarrow> k < length (columns lc) \<Longrightarrow>
        cell cl i k = running_max (\<lambda>j. of_bool (cell lc j k) * snd (ll ! k)) i"
    using contam_len_spec [OF assms] by blast
  show ?thesis
    using cl sum_axis1_spec [OF cl_w] cl_i cl_c cl_cell by simp
qed

lemma extent_sorted:
  assumes "length ec = T"
    and "\<And>i. i < T \<Longrightarrow> snd (ec ! i) = (\<Sum>k < (M::nat). running_max (f k) i)"
  shows "sorted (map snd ec)"
proof -
  have "snd (ec ! i) \<le> snd (ec ! j)" if "i \<le> j" and "j < T" for i j
  proof -
    have "(\<Sum>k < M. running_max (f k) i) \<le> (\<Sum>k < M. running_max (f k) j)"
      using that(1) by (intro sum_mono running_max_mono)
    then show ?thesis using that assms(2) by simp
  qed
  then show ?thesis using assms(1) by (simp add: sorted_iff_nth_mono)
qed

lemma sum_marked:
  "(\<Sum>k < (M::nat). of_bool (P k) * (l k :: real)) = (\<Sum>k \<in> {k. k < M \<and> P k}. l k)"
proof -
  have "(\<Sum>k \<in> {k \<in> {..<M}. P k}. l k) = (\<Sum>k < M. if P k then l k else 0)"
    by (rule sum.inter_filter) simp
  moreover have "{k \<in> {..<M}. P k} = {k. k < M \<and> P k}" by auto
  moreover have "(\<Sum>k < M. if P k then l k else 0) = (\<Sum>k < M. of_bool (P k) * l k)"
    by (intro sum.cong) simp_all
  ultimately show ?thesis by simp
qed

section \<open>The metrics on the example inputs\<close>

lemmas example_defs = example_demand_def example_quality_def example_node_results_def
  example_node_quality_def example_flow_rate_def example_link_names_def example_link_start_def
  example_link_end_def example_link_length_def example_link_quality_def

lemma example_mass:
  "mass_contaminant_consumed example_node_results =
     Inr \<lparr>index = [0, 900, 1800], columns = [''121'', ''River''],
          cells = [[7200, 0], [0, 0], [1350, 0]]\<rparr>"
  by (simp add: example_defs mass_contaminant_consumed_def getitem_def index_at_def
      frame_zip_def frame_map_def)

lemma example_volume:
  "volume_contaminant_consumed example_node_results (1 / 2) =
     Inr \<lparr>index = [0, 900, 1800], columns = [''121'', ''River''],
          cells = [[1800, 0], [0, 0], [0, 0]]\<rparr>"
  "volume_contaminant_consumed example_node_results 0 =
     Inr \<lparr>index = [0, 900, 1800], columns = [''121'', ''River''],
          cells = [[1800, 0], [0, 0], [2700, 0]]\<rparr>"
  by (simp_all add: example_defs volume_contaminant_consumed_def getitem_def index_at_def
      frame_zip_def frame_map_def)

lemma example_indirect_inputs:
  "indirect_inputs example_node_quality example_flow_rate example_link_names
     example_link_start example_link_end example_link_length"
  by (simp add: example_defs indirect_inputs_def wf_frame_def)

lemma example_link_contam:
  "link_contam_indirect example_node_quality example_flow_rate example_link_names
     example_link_start example_link_end 0 =
   Inr \<lparr>index = [0, 3600, 7200], columns = [''P1'', ''P2'', ''P3''],
        cells = [[True, False, False], [True, True, True], [False, False, False]]\<rparr>"
  by (simp add: example_defs link_contam_indirect_def loc_columns_def frame_map_def
      frame_zip_array_def np_array_def frame_zip_def)

lemma example_indirect:
  "extent_contamination_indirect example_node_quality example_flow_rate example_link_names
     example_link_start example_link_end example_link_length 0 =
   Inr [(0, 100), (3600, 390), (7200, 390)]"
  by (simp add: extent_contamination_indirect_def example_link_contam contam_len_def
      frame_mul_series_def cummax_def sum_axis1_def example_link_length_def Let_def)

lemma example_direct:
  "extent_contamination_direct example_link_quality example_link_length 0 =
   Inr [(0, 100), (3600, 350), (7200, 350)]"
  by (simp add: extent_contamination_direct_def link_contam_direct_def contam_len_def
      frame_mul_series_def cummax_def sum_axis1_def example_defs frame_map_def Let_def)


lemma running_max_const: "running_max (\<lambda>j. c) i = c"
  by (induction i) simp_all

lemma indirect_extent_spec:
  assumes ok: "indirect_inputs node_quality flow_rate link_names link_start_node link_end_node
      link_length"
  shows "\<exists>lc ec.
      link_contam_indirect node_quality flow_rate link_names link_start_node link_end_node
        detection_limit = Inr lc
    \<and> (\<forall>i < length (index flow_rate). \<forall>k < length link_names.
          cell lc i k = contaminated_at node_quality flow_rate link_names link_start_node
            link_end_node detection_limit i k)
    \<and> extent_contamination_indirect node_quality flow_rate link_names link_start_node
        link_end_node link_length detection_limit = Inr ec
    \<and> map fst ec = index flow_rate \<and> length ec = length (index flow_rate)
    \<and> (\<forall>i < length (index flow_rate).
          snd (ec ! i) =
            (\<Sum>k < length link_names.
               running_max (\<lambda>j. of_bool (cell lc j k) * snd (link_length ! k)) i))"
proof -
  have ll: "map fst link_length = link_names"
    using ok by (simp add: indirect_inputs_def)
  obtain lc where lc: "link_contam_indirect node_quality flow_rate link_names link_start_node
        link_end_node detection_limit = Inr lc"
    and lc_i: "index lc = index flow_rate" and lc_c: "columns lc = link_names"
    and lc_w: "wf_frame lc"
    and lc_cell: "\<forall>i < length (index flow_rate). \<forall>k < length link_names.
        cell lc i k = contaminated_at node_quality flow_rate link_names link_start_node
          link_end_node detection_limit i k"
    using link_contam_indirect_spec [OF ok] by blast
  have cols: "columns lc = map fst link_length" using lc_c ll by simp
  obtain cl where cl: "contam_len lc link_length = Inr cl"
    and ec_i: "map fst (sum_axis1 cl) = index lc"
    and ec_l: "length (sum_axis1 cl) = length (index lc)"
    and ec_v: "\<forall>i < length (index lc). snd (sum_axis1 cl ! i) =
        (\<Sum>k < length (columns lc).
           running_max (\<lambda>j. of_bool (cell lc j k) * snd (link_length ! k)) i)"
    using extent_spec [OF lc_w cols] by blast
  have ec: "extent_contamination_indirect node_quality flow_rate link_names link_start_node
        link_end_node link_length detection_limit = Inr (sum_axis1 cl)"
    using lc cl by (simp add: extent_contamination_indirect_def)
  show ?thesis
    using lc lc_cell ec ec_i ec_l ec_v lc_i lc_c
    by (intro exI [of _ lc] exI [of _ "sum_axis1 cl"]) simp
qed

lemma direct_extent_spec:
  assumes ok: "direct_inputs link_quality link_length"
  shows "\<exists>ec.
      extent_contamination_direct link_quality link_length detection_limit = Inr ec
    \<and> map fst ec = index link_quality \<and> length ec = length (index link_quality)
    \<and> (\<forall>i < length (index link_quality).
          snd (ec ! i) =
            (\<Sum>k < length (columns link_quality).
               running_max
                 (\<lambda>j. of_bool (cell link_quality j k > detection_limit) * snd (link_length ! k))
                 i))"
proof -
  let ?lc = "link_contam_direct link_quality detection_limit"
  have w: "wf_frame link_quality" and ll: "map fst link_length = columns link_quality"
    using ok by (simp_all add: direct_inputs_def)
  have lc_w: "wf_frame ?lc" using w by (simp add: link_contam_direct_def wf_frame_map)
  have lc_i: "index ?lc = index link_quality" and lc_c: "columns ?lc = columns link_quality"
    by (simp_all add: link_contam_direct_def frame_map_labels)
  have cols: "columns ?lc = map fst link_length" using lc_c ll by simp
  have lc_cell: "cell ?lc i k = (cell link_quality i k > detection_limit)"
    if "i < length (index link_quality)" and "k < length (columns link_quality)" for i k
    using w that by (simp add: link_contam_direct_def cell_frame_map)
  obtain cl where cl: "contam_len ?lc link_length = Inr cl"
    and ec_i: "map fst (sum_axis1 cl) = index ?lc"
    and ec_l: "length (sum_axis1 cl) = length (index ?lc)"
    and ec_v: "\<And>i. i < length (index ?lc) \<Longrightarrow> snd (sum_axis1 cl ! i) =
        (\<Sum>k < length (columns ?lc).
           running_max (\<lambda>j. of_bool (cell ?lc j k) * snd (link_length ! k)) i)"
    using extent_spec [OF lc_w cols] by blast
  have ec: "extent_contamination_direct link_quality link_length detection_limit
      = Inr (sum_axis1 cl)"
    using cl by (simp add: extent_contamination_direct_def)
  have v: "snd (sum_axis1 cl ! i) =
      (\<Sum>k < length (columns link_quality).
         running_max
           (\<lambda>j. of_bool (cell link_quality j k > detection_limit) * snd (link_length ! k)) i)"
    if i: "i < length (index link_quality)" for i
  proof -
    have "running_max (\<lambda>j. of_bool (cell ?lc j k) * snd (link_length ! k)) i
        = running_max
            (\<lambda>j. of_bool (cell link_quality j k > detection_limit) * snd (link_length ! k)) i"
      if "k < length (columns link_quality)" for k
      using i that by (intro running_max_cong) (simp add: lc_cell)
    then show ?thesis using ec_v [of i] i lc_i lc_c by simp
  qed
  show ?thesis
    using ec ec_i ec_l v lc_i by simp
qed

lemma indirect_monotone:
  assumes "indirect_inputs node_quality flow_rate link_names link_start_node link_end_node
      link_length"
  shows "\<exists>ec. extent_contamination_indirect node_quality flow_rate link_names link_start_node
        link_end_node link_length detection_limit = Inr ec
    \<and> length ec = length (index flow_rate) \<and> sorted (map snd ec)"
proof -
  obtain lc ec where ec: "extent_contamination_indirect node_quality flow_rate link_names
        link_start_node link_end_node link_length detection_limit = Inr ec"
    and l: "length ec = length (index flow_rate)"
    and v: "\<And>i. i < length (index flow_rate) \<Longrightarrow> snd (ec ! i) =
        (\<Sum>k < length link_names.
           running_max (\<lambda>j. of_bool (cell lc j k) * snd (link_length ! k)) i)"
    using indirect_extent_spec [OF assms, of detection_limit] by blast
  have "sorted (map snd ec)"
    using l v by (rule extent_sorted)
  then show ?thesis using ec l by simp
qed

lemma direct_monotone:
  assumes "direct_inputs link_quality link_length"
  shows "\<exists>ec. extent_contamination_direct link_quality link_length detection_limit = Inr ec
    \<and> length ec = length (index link_quality) \<and> sorted (map snd ec)"
proof -
  obtain ec where ec: "extent_contamination_direct link_quality link_length detection_limit
        = Inr ec"
    and l: "length ec = length (index link_quality)"
    and v: "\<And>i. i < length (index link_quality) \<Longrightarrow> snd (ec ! i) =
        (\<Sum>k < length (columns link_quality).
           running_max
             (\<lambda>j. of_bool (cell link_quality j k > detection_limit) * snd (link_length ! k))
             i)"
    using direct_extent_spec [OF assms, of detection_limit] by blast
  have "sorted (map snd ec)"
    using l v by (rule extent_sorted)
  then show ?thesis using ec l by simp
qed

lemma mass_result:
  assumes "node_results ''demand'' = Some demand" and "node_results ''quality'' = Some quality"
    and "wf_frame demand" and "wf_frame quality" and "aligned demand quality"
    and "1 < length (index quality)"
  shows "\<exists>MC. mass_contaminant_consumed node_results = Inr MC
     \<and> index MC = index demand \<and> columns MC = columns demand \<and> wf_frame MC
     \<and> (\<forall>i < length (index demand). \<forall>k < length (columns demand).
          cell MC i k =
            (if cell demand i k > 0
             then cell demand i k * (index quality ! 1) * cell quality i k else 0))"
proof -
  let ?MC = "\<lparr>index = index demand, columns = columns demand,
      cells = map2 (map2 (\<lambda>x m. x * of_bool m))
        (map2 (map2 (\<lambda>x q. x * q)) (map (map (\<lambda>d. d * (index quality ! 1))) (cells demand))
           (cells quality))
        (map (map (\<lambda>d. d > 0)) (cells demand))\<rparr>"
  have v: "mass_contaminant_consumed node_results = Inr ?MC"
    using assms
    by (simp add: mass_contaminant_consumed_def getitem_def index_at_def frame_zip_def
        frame_map_def aligned_def)
  have w: "wf_frame ?MC"
    using assms(3-5) by (rule consumed_wf)
  have c: "cell ?MC i k =
      (if cell demand i k > 0 then cell demand i k * (index quality ! 1) * cell quality i k else 0)"
    if "i < length (index demand)" and "k < length (columns demand)" for i k
    using consumed_cells [OF assms(3-5) that, where g = "\<lambda>x m. x * of_bool m"
        and f = "\<lambda>x q. x * q" and h = "\<lambda>d. d * (index quality ! 1)" and m = "\<lambda>d. d > 0"]
    by simp
  show ?thesis using v w c by simp
qed

lemma volume_result:
  assumes "node_results ''demand'' = Some demand" and "node_results ''quality'' = Some quality"
    and "wf_frame demand" and "wf_frame quality" and "aligned demand quality"
    and "1 < length (index quality)"
  shows "\<exists>VC. volume_contaminant_consumed node_results detection_limit = Inr VC
     \<and> index VC = index demand \<and> columns VC = columns demand \<and> wf_frame VC
     \<and> (\<forall>i < length (index demand). \<forall>k < length (columns demand).
          cell VC i k =
            (if cell quality i k > detection_limit \<and> cell demand i k > 0
             then cell demand i k * (index quality ! 1) else 0))"
proof -
  let ?maskQ = "frame_map (\<lambda>q. q > detection_limit) quality"
  let ?VC = "\<lparr>index = index demand, columns = columns demand,
      cells = map2 (map2 (\<lambda>x m. x * of_bool m))
        (map2 (map2 (\<lambda>x m. x * of_bool m))
           (map (map (\<lambda>d. d * (index quality ! 1))) (cells demand))
           (cells ?maskQ))
        (map (map (\<lambda>d. d > 0)) (cells demand))\<rparr>"
  have wq: "wf_frame ?maskQ" using assms(4) by (rule wf_frame_map)
  have al: "aligned demand ?maskQ"
    using assms(5) by (simp add: aligned_def frame_map_labels)
  have v: "volume_contaminant_consumed node_results detection_limit = Inr ?VC"
    using assms
    by (simp add: volume_contaminant_consumed_def getitem_def index_at_def frame_zip_def
        frame_map_def aligned_def)
  have w: "wf_frame ?VC"
    using assms(3) wq al by (rule consumed_wf)
  have c: "cell ?VC i k =
      (if cell quality i k > detection_limit \<and> cell demand i k > 0
       then cell demand i k * (index quality ! 1) else 0)"
    if "i < length (index demand)" and "k < length (columns demand)" for i k
  proof -
    have "cell ?maskQ i k = (cell quality i k > detection_limit)"
      using assms(4,5) that by (simp add: cell_frame_map aligned_def)
    then show ?thesis
      using consumed_cells [OF assms(3) wq al that, where g = "\<lambda>x m. x * of_bool m"
          and f = "\<lambda>x m. x * of_bool m" and h = "\<lambda>d. d * (index quality ! 1)"
          and m = "\<lambda>d. d > 0"]
      by simp
  qed
  show ?thesis using v w c by simp
qed

lemma volume_strict:
  assumes "node_results ''demand'' = Some demand" and "node_results ''quality'' = Some quality"
    and "wf_frame demand" and "wf_frame quality" and "aligned demand quality"
    and "1 < length (index quality)"
  shows "\<exists>VC. volume_contaminant_consumed node_results detection_limit = Inr VC
     \<and> (\<forall>i < length (index demand). \<forall>k < length (columns demand).
          cell quality i k = detection_limit \<longrightarrow> cell VC i k = 0)"
  using volume_result [OF assms, of detection_limit] by auto

lemma indirect_strict:
  assumes ok: "indirect_inputs node_quality flow_rate link_names link_start_node link_end_node
      link_length"
  shows "\<exists>lc ec.
      link_contam_indirect node_quality flow_rate link_names link_start_node link_end_node
        detection_limit = Inr lc
    \<and> extent_contamination_indirect node_quality flow_rate link_names link_start_node
        link_end_node link_length detection_limit = Inr ec
    \<and> (\<forall>i < length (index flow_rate). \<forall>k < length link_names.
          (0 < at_label flow_rate i (link_names ! k)
             \<and> at_label node_quality i (link_start_node ! k) = detection_limit)
          \<or> (at_label flow_rate i (link_names ! k) < 0
             \<and> at_label node_quality i (link_end_node ! k) = detection_limit)
          \<longrightarrow> \<not> cell lc i k)
    \<and> ((\<forall>i < length (index node_quality). \<forall>n < length (columns node_quality).
            cell node_quality i n = detection_limit)
        \<longrightarrow> (\<forall>i < length (index flow_rate). snd (ec ! i) = 0))"
proof -
  let ?T = "length (index flow_rate)" and ?M = "length link_names"
  obtain lc ec where lc: "link_contam_indirect node_quality flow_rate link_names
        link_start_node link_end_node detection_limit = Inr lc"
    and lc_cell: "\<And>i k. i < ?T \<Longrightarrow> k < ?M \<Longrightarrow>
        cell lc i k = contaminated_at node_quality flow_rate link_names link_start_node
          link_end_node detection_limit i k"
    and ec: "extent_contamination_indirect node_quality flow_rate link_names link_start_node
        link_end_node link_length detection_limit = Inr ec"
    and v: "\<And>i. i < ?T \<Longrightarrow> snd (ec ! i) =
        (\<Sum>k < ?M. running_max (\<lambda>j. of_bool (cell lc j k) * snd (link_length ! k)) i)"
    using indirect_extent_spec [OF ok, of detection_limit] by blast
  have rows: "length (index node_quality) = ?T"
    and starts: "list_all (\<lambda>l. l \<in> set (columns node_quality)) link_start_node"
    and ends: "list_all (\<lambda>l. l \<in> set (columns node_quality)) link_end_node"
    and ls: "length link_start_node = ?M" and le: "length link_end_node = ?M"
    using ok by (simp_all add: indirect_inputs_def)
  have a: "\<not> cell lc i k"
    if "i < ?T" and "k < ?M"
      and "(0 < at_label flow_rate i (link_names ! k)
             \<and> at_label node_quality i (link_start_node ! k) = detection_limit)
          \<or> (at_label flow_rate i (link_names ! k) < 0
             \<and> at_label node_quality i (link_end_node ! k) = detection_limit)" for i k
    using that by (auto simp add: lc_cell contaminated_at_def)
  have b: "snd (ec ! i) = 0"
    if all: "\<forall>i < length (index node_quality). \<forall>n < length (columns node_quality).
        cell node_quality i n = detection_limit"
      and i: "i < ?T" for i
  proof -
    have never: "\<not> cell lc j k" if "j \<le> i" and k: "k < ?M" for j k
    proof -
      have j: "j < ?T" using that i by simp
      have "link_start_node ! k \<in> set (columns node_quality)"
        and "link_end_node ! k \<in> set (columns node_quality)"
        using starts ends ls le k by (simp_all add: list_all_length)
      then have "at_label node_quality j (link_start_node ! k) = detection_limit"
        and "at_label node_quality j (link_end_node ! k) = detection_limit"
        using all j rows by (simp_all add: at_label_def position_less)
      then show ?thesis using j k by (simp add: lc_cell contaminated_at_def)
    qed
    have "running_max (\<lambda>j. of_bool (cell lc j k) * snd (link_length ! k)) i = 0"
      if "k < ?M" for k
    proof -
      have "running_max (\<lambda>j. of_bool (cell lc j k) * snd (link_length ! k)) i
          = running_max (\<lambda>j. 0) i"
        using never that by (intro running_max_cong) simp
      then show ?thesis by (simp add: running_max_const)
    qed
    then show ?thesis using v [OF i] by simp
  qed
  show ?thesis
    using lc ec a b by (intro exI [of _ lc] exI [of _ ec]) blast
qed

lemma direct_strict:
  assumes ok: "direct_inputs link_quality link_length"
  shows "\<exists>ec.
      extent_contamination_direct link_quality link_length detection_limit = Inr ec
    \<and> (\<forall>i < length (index link_quality). \<forall>k < length (columns link_quality).
          cell link_quality i k = detection_limit
          \<longrightarrow> \<not> cell (link_contam_direct link_quality detection_limit) i k)
    \<and> ((\<forall>i < length (index link_quality). \<forall>k < length (columns link_quality).
            cell link_quality i k = detection_limit)
        \<longrightarrow> (\<forall>i < length (index link_quality). snd (ec ! i) = 0))"
proof -
  let ?T = "length (index link_quality)" and ?M = "length (columns link_quality)"
  have w: "wf_frame link_quality" using ok by (simp add: direct_inputs_def)
  obtain ec where ec: "extent_contamination_direct link_quality link_length detection_limit
        = Inr ec"
    and v: "\<And>i. i < ?T \<Longrightarrow> snd (ec ! i) =
        (\<Sum>k < ?M. running_max
           (\<lambda>j. of_bool (cell link_quality j k > detection_limit) * snd (link_length ! k)) i)"
    using direct_extent_spec [OF ok, of detection_limit] by blast
  have a: "\<not> cell (link_contam_direct link_quality detection_limit) i k"
    if "i < ?T" and "k < ?M" and "cell link_quality i k = detection_limit" for i k
    using w that by (simp add: link_contam_direct_def cell_frame_map)
  have b: "snd (ec ! i) = 0"
    if all: "\<forall>i < ?T. \<forall>k < ?M. cell link_quality i k = detection_limit" and i: "i < ?T" for i
  proof -
    have "running_max
        (\<lambda>j. of_bool (cell link_quality j k > detection_limit) * snd (link_length ! k)) i = 0"
      if k: "k < ?M" for k
    proof -
      have "running_max
          (\<lambda>j. of_bool (cell link_quality j k > detection_limit) * snd (link_length ! k)) i
          = running_max (\<lambda>j. 0) i"
        using all i k by (intro running_max_cong) simp
      then show ?thesis by (simp add: running_max_const)
    qed
    then show ?thesis using v [OF i] by simp
  qed
  show ?thesis
    using ec a b by (intro exI [of _ ec]) blast
qed

lemma example_direct_inputs: "direct_inputs example_link_quality example_link_length"
  by (simp add: example_defs direct_inputs_def wf_frame_def)

lemma example_node_results_wf:
  "example_node_results ''demand'' = Some example_demand"
  "example_node_results ''quality'' = Some example_quality"
  "wf_frame example_demand" "wf_frame example_quality"
  "aligned example_demand example_quality" "1 < length (index example_quality)"
  by (simp_all add: example_defs wf_frame_def aligned_def)

section \<open>Mass and volume consumed: the contracts\<close>

text \<open>
  C2. When the tables \<open>demand\<close> and \<open>quality\<close> of the node results share their times and
  their nodes (as the tables of one Panel do) and there are at least two times,
  \<open>mass_contaminant_consumed\<close> returns a table with the same times and nodes, whose cell
  for a node at a time is demand times \<open>deltaT\<close> times quality where the demand is
  positive and 0 where it is not; \<open>deltaT\<close> is the second entry of the time axis of the
  quality table, whatever the spacing of the other times.
\<close>

theorem mass_contaminant_consumed_contract:
  assumes "node_results ''demand'' = Some demand" and "node_results ''quality'' = Some quality"
    and "wf_frame demand" and "wf_frame quality" and "aligned demand quality"
    and "1 < length (index quality)"
  shows "\<exists>MC. mass_contaminant_consumed node_results = Inr MC
     \<and> index MC = index demand \<and> columns MC = columns demand \<and> wf_frame MC
     \<and> (\<forall>i < length (index demand). \<forall>k < length (columns demand).
          cell MC i k =
            (if cell demand i k > 0
             then cell demand i k * (index quality ! 1) * cell quality i k else 0))"
  using assms by (rule mass_result)

theorem mass_contaminant_consumed_contract_witness:
  "example_node_results ''demand'' = Some example_demand
   \<and> example_node_results ''quality'' = Some example_quality
   \<and> wf_frame example_demand \<and> wf_frame example_quality
   \<and> aligned example_demand example_quality \<and> 1 < length (index example_quality)
   \<and> mass_contaminant_consumed example_node_results =
       Inr \<lparr>index = [0, 900, 1800], columns = [''121'', ''River''],
            cells = [[7200, 0], [0, 0], [1350, 0]]\<rparr>"
  using mass_contaminant_consumed_contract [of example_node_results example_demand
      example_quality] example_node_results_wf example_mass
  by simp

text \<open>
  The function needs the second time: on a table of a single time it raises IndexError,
  and without the two tables KeyError. The time step is read at position 1 and is not the
  difference of two times: on times that start at 100 it is 200, not 100.
\<close>

lemma mass_contaminant_consumed_errors:
  "mass_contaminant_consumed Map.empty = Inl KeyError"
  "mass_contaminant_consumed
     [''demand'' \<mapsto> \<lparr>index = [0], columns = [''121''], cells = [[2]]\<rparr>,
      ''quality'' \<mapsto> \<lparr>index = [0], columns = [''121''], cells = [[4]]\<rparr>] = Inl IndexError"
  "mass_contaminant_consumed
     [''demand'' \<mapsto> \<lparr>index = [100, 200], columns = [''121''], cells = [[2], [2]]\<rparr>,
      ''quality'' \<mapsto> \<lparr>index = [100, 200], columns = [''121''], cells = [[4], [4]]\<rparr>]
   = Inr \<lparr>index = [100, 200], columns = [''121''], cells = [[1600], [1600]]\<rparr>"
  by (simp_all add: mass_contaminant_consumed_def getitem_def index_at_def frame_zip_def
      frame_map_def)

text \<open>
  C4. Under the same conditions \<open>volume_contaminant_consumed\<close> returns a table with the
  same times and nodes, whose cell is demand times \<open>deltaT\<close> where the quality is
  strictly above the detection limit and the demand is positive, and 0 elsewhere; the
  quality does not weight the volume.
\<close>

theorem volume_contaminant_consumed_contract:
  assumes "node_results ''demand'' = Some demand" and "node_results ''quality'' = Some quality"
    and "wf_frame demand" and "wf_frame quality" and "aligned demand quality"
    and "1 < length (index quality)"
  shows "\<exists>VC. volume_contaminant_consumed node_results detection_limit = Inr VC
     \<and> index VC = index demand \<and> columns VC = columns demand \<and> wf_frame VC
     \<and> (\<forall>i < length (index demand). \<forall>k < length (columns demand).
          cell VC i k =
            (if cell quality i k > detection_limit \<and> cell demand i k > 0
             then cell demand i k * (index quality ! 1) else 0))"
  using assms by (rule volume_result)

theorem volume_contaminant_consumed_contract_witness:
  "example_node_results ''demand'' = Some example_demand
   \<and> example_node_results ''quality'' = Some example_quality
   \<and> wf_frame example_demand \<and> wf_frame example_quality
   \<and> aligned example_demand example_quality \<and> 1 < length (index example_quality)
   \<and> volume_contaminant_consumed example_node_results 0 =
       Inr \<lparr>index = [0, 900, 1800], columns = [''121'', ''River''],
            cells = [[1800, 0], [0, 0], [2700, 0]]\<rparr>"
  using volume_contaminant_consumed_contract [of example_node_results example_demand
      example_quality 0] example_node_results_wf example_volume(2)
  by simp

section \<open>Extent of contamination: the contracts\<close>

text \<open>
  C1. On inputs that line up, and with link lengths that are not negative,
  \<open>extent_contamination_indirect\<close> returns one value per time. At every time and for
  every link, \<open>link_contam\<close> holds iff the flow is positive and the quality at the start
  node is above the detection limit, or the flow is negative and the quality at the end
  node is above it; a flow of zero never marks the link. A link that \<open>link_contam\<close>
  marks at a step is marked at every later step, \<open>contam_len\<close> holds the length of the
  link from then on, and the value returned at a time is the sum of the lengths of the
  links marked up to that time.
\<close>

theorem extent_contamination_indirect_contract:
  assumes ok: "indirect_inputs node_quality flow_rate link_names link_start_node link_end_node
      link_length"
    and nonneg: "list_all (\<lambda>l. 0 \<le> snd l) link_length"
  shows "\<exists>lc cl ec.
      link_contam_indirect node_quality flow_rate link_names link_start_node link_end_node
        detection_limit = Inr lc
    \<and> contam_len lc link_length = Inr cl
    \<and> extent_contamination_indirect node_quality flow_rate link_names link_start_node
        link_end_node link_length detection_limit = Inr ec
    \<and> map fst ec = index flow_rate
    \<and> (\<forall>i < length (index flow_rate). \<forall>k < length link_names.
          (cell lc i k \<longleftrightarrow>
             contaminated_at node_quality flow_rate link_names link_start_node link_end_node
               detection_limit i k)
        \<and> (at_label flow_rate i (link_names ! k) = 0 \<longrightarrow> \<not> cell lc i k)
        \<and> (\<forall>j \<le> i. cell lc j k \<longrightarrow> marked (cell lc) i k)
        \<and> cell cl i k = (if marked (cell lc) i k then snd (link_length ! k) else 0))
    \<and> (\<forall>i < length (index flow_rate).
          snd (ec ! i) =
            (\<Sum>k \<in> {k. k < length link_names \<and> marked (cell lc) i k}. snd (link_length ! k)))"
proof -
  let ?T = "length (index flow_rate)" and ?M = "length link_names"
  have ll: "map fst link_length = link_names"
    using ok by (simp add: indirect_inputs_def)
  then have len: "length link_length = ?M" by (metis length_map)
  obtain lc where lc: "link_contam_indirect node_quality flow_rate link_names link_start_node
        link_end_node detection_limit = Inr lc"
    and lc_i: "index lc = index flow_rate" and lc_c: "columns lc = link_names"
    and lc_w: "wf_frame lc"
    and lc_cell: "\<And>i k. i < ?T \<Longrightarrow> k < ?M \<Longrightarrow>
        cell lc i k = contaminated_at node_quality flow_rate link_names link_start_node
          link_end_node detection_limit i k"
    using link_contam_indirect_spec [OF ok] by blast
  have cols: "columns lc = map fst link_length" using lc_c ll by simp
  obtain cl where cl: "contam_len lc link_length = Inr cl"
    and cl_i: "index cl = index lc" and cl_c: "columns cl = columns lc"
    and cl_w: "wf_frame cl"
    and cl_cell: "\<And>i k. i < ?T \<Longrightarrow> k < ?M \<Longrightarrow>
        cell cl i k = running_max (\<lambda>j. of_bool (cell lc j k) * snd (link_length ! k)) i"
    using contam_len_spec [OF lc_w cols] lc_i lc_c by auto
  have flag: "cell cl i k = of_bool (marked (cell lc) i k) * snd (link_length ! k)"
    if "i < ?T" and "k < ?M" for i k
  proof -
    have "0 \<le> snd (link_length ! k)"
      using nonneg len that(2) by (simp add: list_all_length)
    then show ?thesis
      using that by (simp add: cl_cell running_max_flag marked_def)
  qed
  have ec: "extent_contamination_indirect node_quality flow_rate link_names link_start_node
        link_end_node link_length detection_limit = Inr (sum_axis1 cl)"
    using lc cl by (simp add: extent_contamination_indirect_def)
  have total: "snd (sum_axis1 cl ! i) =
      (\<Sum>k \<in> {k. k < ?M \<and> marked (cell lc) i k}. snd (link_length ! k))"
    if i: "i < ?T" for i
  proof -
    have "snd (sum_axis1 cl ! i) = (\<Sum>k < ?M. cell cl i k)"
      using sum_axis1_spec [OF cl_w] i cl_i cl_c lc_i lc_c by simp
    also have "\<dots> = (\<Sum>k < ?M. of_bool (marked (cell lc) i k) * snd (link_length ! k))"
      using i by (intro sum.cong) (simp_all add: flag)
    also have "\<dots> = (\<Sum>k \<in> {k. k < ?M \<and> marked (cell lc) i k}. snd (link_length ! k))"
      by (rule sum_marked)
    finally show ?thesis .
  qed
  have zero: "\<not> cell lc i k"
    if "i < ?T" and "k < ?M" and "at_label flow_rate i (link_names ! k) = 0" for i k
    using that by (simp add: lc_cell contaminated_at_def)
  have sticky: "marked (cell lc) i k" if "j \<le> i" and "cell lc j k" for i j k
    using that by (auto simp add: marked_def)
  have idx: "map fst (sum_axis1 cl) = index flow_rate"
    using sum_axis1_spec [OF cl_w] cl_i lc_i by simp
  show ?thesis
    using lc cl ec idx lc_cell zero sticky flag total
    by (intro exI [of _ lc] exI [of _ cl] exI [of _ "sum_axis1 cl"]) simp
qed

theorem extent_contamination_indirect_contract_witness:
  "indirect_inputs example_node_quality example_flow_rate example_link_names
     example_link_start example_link_end example_link_length
   \<and> list_all (\<lambda>l. 0 \<le> snd l) example_link_length
   \<and> link_contam_indirect example_node_quality example_flow_rate example_link_names
       example_link_start example_link_end 0 =
     Inr \<lparr>index = [0, 3600, 7200], columns = [''P1'', ''P2'', ''P3''],
          cells = [[True, False, False], [True, True, True], [False, False, False]]\<rparr>
   \<and> extent_contamination_indirect example_node_quality example_flow_rate example_link_names
       example_link_start example_link_end example_link_length 0 =
     Inr [(0, 100), (3600, 390), (7200, 390)]"
  using extent_contamination_indirect_contract [of example_node_quality example_flow_rate
      example_link_names example_link_start example_link_end example_link_length 0]
    example_indirect_inputs example_link_contam example_indirect
  by (simp add: example_link_length_def)

text \<open>
  The lengths must not be negative for that: the running maximum of a column that holds
  a negative length and zeros goes back to zero as soon as the link is not contaminated
  at a step, so the link is no longer counted although it was marked.
\<close>

lemma negative_length_is_dropped:
  "extent_contamination_direct
     \<lparr>index = [0, 3600], columns = [''P1''], cells = [[1], [0]]\<rparr> [(''P1'', - 100)] 0
   = Inr [(0, - 100), (3600, 0)]"
  by (simp add: extent_contamination_direct_def link_contam_direct_def contam_len_def
      frame_mul_series_def cummax_def sum_axis1_def frame_map_def Let_def)

text \<open>
  C3. For both \<open>extent_contamination_indirect\<close> and \<open>extent_contamination_direct\<close>, on
  inputs that line up and for every detection limit, the values returned are in
  non-decreasing order along the times. The sign of the lengths plays no part.
\<close>

theorem extent_contamination_monotone:
  "(indirect_inputs node_quality flow_rate link_names link_start_node link_end_node link_length
      \<longrightarrow> (\<exists>ec. extent_contamination_indirect node_quality flow_rate link_names
                 link_start_node link_end_node link_length detection_limit = Inr ec
             \<and> length ec = length (index flow_rate) \<and> sorted (map snd ec)))
   \<and> (direct_inputs link_quality link_length'
      \<longrightarrow> (\<exists>ec. extent_contamination_direct link_quality link_length' detection_limit' = Inr ec
             \<and> length ec = length (index link_quality) \<and> sorted (map snd ec)))"
  using indirect_monotone direct_monotone by blast

theorem extent_contamination_monotone_witness:
  "indirect_inputs example_node_quality example_flow_rate example_link_names
     example_link_start example_link_end example_link_length
   \<and> extent_contamination_indirect example_node_quality example_flow_rate example_link_names
       example_link_start example_link_end example_link_length 0 =
     Inr [(0, 100), (3600, 390), (7200, 390)]
   \<and> direct_inputs example_link_quality example_link_length
   \<and> extent_contamination_direct example_link_quality example_link_length 0 =
     Inr [(0, 100), (3600, 350), (7200, 350)]
   \<and> sorted [100, 390, 390 :: real] \<and> sorted [100, 350, 350 :: real]"
  using extent_contamination_monotone [of example_node_quality example_flow_rate
      example_link_names example_link_start example_link_end example_link_length 0
      example_link_quality example_link_length 0]
    example_indirect_inputs example_indirect example_direct_inputs example_direct
  by simp

text \<open>
  C10. The comparisons with the detection limit are strict, for every detection limit
  (0, the default of the two extents, is one). In \<open>volume_contaminant_consumed\<close> a cell whose quality equals the limit
  holds no volume. In \<open>extent_contamination_indirect\<close> a link whose upstream node (the
  start node under a positive flow, the end node under a negative one) has a quality equal
  to the limit is not marked at that step, and when every quality equals the limit the
  extent is 0 at every time. In \<open>extent_contamination_direct\<close> a link whose quality
  equals the limit is not marked at that step, and when every link quality equals the
  limit the extent is 0 at every time.
\<close>

theorem detection_limit_is_strict:
  "(node_results ''demand'' = Some demand \<and> node_results ''quality'' = Some quality
      \<and> wf_frame demand \<and> wf_frame quality \<and> aligned demand quality
      \<and> 1 < length (index quality)
    \<longrightarrow> (\<exists>VC. volume_contaminant_consumed node_results detection_limit = Inr VC
          \<and> (\<forall>i < length (index demand). \<forall>k < length (columns demand).
                cell quality i k = detection_limit \<longrightarrow> cell VC i k = 0)))
   \<and> (indirect_inputs node_quality flow_rate link_names link_start_node link_end_node
        link_length
    \<longrightarrow> (\<exists>lc ec.
            link_contam_indirect node_quality flow_rate link_names link_start_node
              link_end_node detection_limit' = Inr lc
          \<and> extent_contamination_indirect node_quality flow_rate link_names link_start_node
              link_end_node link_length detection_limit' = Inr ec
          \<and> (\<forall>i < length (index flow_rate). \<forall>k < length link_names.
                (0 < at_label flow_rate i (link_names ! k)
                   \<and> at_label node_quality i (link_start_node ! k) = detection_limit')
                \<or> (at_label flow_rate i (link_names ! k) < 0
                   \<and> at_label node_quality i (link_end_node ! k) = detection_limit')
                \<longrightarrow> \<not> cell lc i k)
          \<and> ((\<forall>i < length (index node_quality). \<forall>n < length (columns node_quality).
                  cell node_quality i n = detection_limit')
              \<longrightarrow> (\<forall>i < length (index flow_rate). snd (ec ! i) = 0))))
   \<and> (direct_inputs link_quality link_length'
    \<longrightarrow> (\<exists>ec.
            extent_contamination_direct link_quality link_length' detection_limit'' = Inr ec
          \<and> (\<forall>i < length (index link_quality). \<forall>k < length (columns link_quality).
                cell link_quality i k = detection_limit''
                \<longrightarrow> \<not> cell (link_contam_direct link_quality detection_limit'') i k)
          \<and> ((\<forall>i < length (index link_quality). \<forall>k < length (columns link_quality).
                  cell link_quality i k = detection_limit'')
              \<longrightarrow> (\<forall>i < length (index link_quality). snd (ec ! i) = 0))))"
proof (intro conjI impI)
  assume "node_results ''demand'' = Some demand \<and> node_results ''quality'' = Some quality
      \<and> wf_frame demand \<and> wf_frame quality \<and> aligned demand quality
      \<and> 1 < length (index quality)"
  then show "\<exists>VC. volume_contaminant_consumed node_results detection_limit = Inr VC
          \<and> (\<forall>i < length (index demand). \<forall>k < length (columns demand).
                cell quality i k = detection_limit \<longrightarrow> cell VC i k = 0)"
    by (intro volume_strict) simp_all
next
  assume "indirect_inputs node_quality flow_rate link_names link_start_node link_end_node
        link_length"
  then show "\<exists>lc ec.
            link_contam_indirect node_quality flow_rate link_names link_start_node
              link_end_node detection_limit' = Inr lc
          \<and> extent_contamination_indirect node_quality flow_rate link_names link_start_node
              link_end_node link_length detection_limit' = Inr ec
          \<and> (\<forall>i < length (index flow_rate). \<forall>k < length link_names.
                (0 < at_label flow_rate i (link_names ! k)
                   \<and> at_label node_quality i (link_start_node ! k) = detection_limit')
                \<or> (at_label flow_rate i (link_names ! k) < 0
                   \<and> at_label node_quality i (link_end_node ! k) = detection_limit')
                \<longrightarrow> \<not> cell lc i k)
          \<and> ((\<forall>i < length (index node_quality). \<forall>n < length (columns node_quality).
                  cell node_quality i n = detection_limit')
              \<longrightarrow> (\<forall>i < length (index flow_rate). snd (ec ! i) = 0))"
    by (rule indirect_strict)
next
  assume "direct_inputs link_quality link_length'"
  then show "\<exists>ec.
            extent_contamination_direct link_quality link_length' detection_limit'' = Inr ec
          \<and> (\<forall>i < length (index link_quality). \<forall>k < length (columns link_quality).
                cell link_quality i k = detection_limit''
                \<longrightarrow> \<not> cell (link_contam_direct link_quality detection_limit'') i k)
          \<and> ((\<forall>i < length (index link_quality). \<forall>k < length (columns link_quality).
                  cell link_quality i k = detection_limit'')
              \<longrightarrow> (\<forall>i < length (index link_quality). snd (ec ! i) = 0))"
    by (rule direct_strict)
qed

lemma example_strict:
  "link_contam_indirect example_node_quality example_flow_rate example_link_names
     example_link_start example_link_end 2 =
   Inr \<lparr>index = [0, 3600, 7200], columns = [''P1'', ''P2'', ''P3''],
        cells = [[True, False, False], [True, False, True], [False, False, False]]\<rparr>"
  "extent_contamination_direct example_link_quality example_link_length 1 =
   Inr [(0, 0), (3600, 250), (7200, 250)]"
  by (simp_all add: example_defs link_contam_indirect_def loc_columns_def frame_map_def
      frame_zip_array_def np_array_def frame_zip_def extent_contamination_direct_def
      link_contam_direct_def contam_len_def frame_mul_series_def cummax_def sum_axis1_def
      Let_def)

theorem detection_limit_is_strict_witness:
  "example_node_results ''demand'' = Some example_demand
   \<and> example_node_results ''quality'' = Some example_quality
   \<and> wf_frame example_demand \<and> wf_frame example_quality
   \<and> aligned example_demand example_quality \<and> 1 < length (index example_quality)
   \<and> cell example_quality 2 0 = 1 / 2
   \<and> volume_contaminant_consumed example_node_results (1 / 2) =
       Inr \<lparr>index = [0, 900, 1800], columns = [''121'', ''River''],
            cells = [[1800, 0], [0, 0], [0, 0]]\<rparr>
   \<and> indirect_inputs example_node_quality example_flow_rate example_link_names
       example_link_start example_link_end example_link_length
   \<and> 0 < at_label example_flow_rate 1 ''P2'' \<and> at_label example_node_quality 1 ''B'' = 2
   \<and> link_contam_indirect example_node_quality example_flow_rate example_link_names
       example_link_start example_link_end 2 =
     Inr \<lparr>index = [0, 3600, 7200], columns = [''P1'', ''P2'', ''P3''],
          cells = [[True, False, False], [True, False, True], [False, False, False]]\<rparr>
   \<and> direct_inputs example_link_quality example_link_length
   \<and> cell example_link_quality 0 0 = 1
   \<and> extent_contamination_direct example_link_quality example_link_length 1 =
     Inr [(0, 0), (3600, 250), (7200, 250)]"
  using detection_limit_is_strict [where node_results = example_node_results
      and demand = example_demand and quality = example_quality and detection_limit = "1 / 2"
      and node_quality = example_node_quality and flow_rate = example_flow_rate
      and link_names = example_link_names and link_start_node = example_link_start
      and link_end_node = example_link_end and link_length = example_link_length
      and detection_limit' = 2 and link_quality = example_link_quality
      and link_length' = example_link_length and detection_limit'' = 1]
    example_node_results_wf example_volume(1) example_indirect_inputs example_strict
    example_direct_inputs
  by (simp add: example_defs cell_def at_label_def)

section \<open>Patterns: evaluation, wrap and the binary constructor\<close>

lemma pattern_index_in_range:
  assumes "0 < length (multipliers p)"
  shows "nat (step mod int (length (multipliers p))) < length (multipliers p)"
  using assms by (simp add: nat_less_iff)

text \<open>The evaluations that \<^verbatim>\<open>test_Pattern\<close> asserts.\<close>

lemma test_Pattern_wrap:
  "pattern_getitem (Pattern ''oops'' [1, 2, 3, 4, 3, 2, 1] 5 True) 2 = 3"
  "pattern_at (Pattern ''oops'' [1, 2, 3, 4, 3, 2, 1] 5 True) 10 = 3"
  "pattern_at (Pattern ''oops'' [1, 2, 3, 4, 3, 2, 1] 5 True) 12.5 = 3"
  "pattern_at (Pattern ''oops'' [1, 2, 3, 4, 3, 2, 1] 5 True) 14 = 3"
  "pattern_at (Pattern ''oops'' [1, 2, 3, 4, 3, 2, 1] 5 True) (9 * 5) = 3"
  "pattern_at (Pattern ''oops'' [1, 2, 3, 4, 3, 2, 1] 5 True) 15 \<noteq> 3"
  by (simp_all add: Pattern_def pattern_at_def pattern_getitem_def)

lemma test_Pattern_nowrap:
  "pattern_getitem (Pattern ''nowrap'' [1.0, 1.2, 1.0] 100 False) 5 = 0"
  "pattern_getitem (Pattern ''nowrap'' [1.0, 1.2, 1.0] 100 False) (- 39) = 0"
  "pattern_at (Pattern ''nowrap'' [1.0, 1.2, 1.0] 100 False) (- 39) = 0"
  "pattern_at (Pattern ''nowrap'' [1.0, 1.2, 1.0] 100 False) 50 = 1"
  "pattern_at (Pattern ''constant'' [] 1 True) 492 = 1"
  by (simp_all add: Pattern_def pattern_at_def pattern_getitem_def)

text \<open>
  C5. For a pattern with \<open>L\<close> multipliers and a positive step size \<open>S\<close>, \<open>at(time)\<close>
  takes the index \<open>floor(time / S)\<close> and returns: the multiplier at the index modulo
  \<open>L\<close> when the pattern wraps and \<open>L > 0\<close>; the multiplier at the index when it does
  not wrap and the index is in \<open>[0, L)\<close>; 0 when it does not wrap, \<open>L > 0\<close> and the
  index is outside \<open>[0, L)\<close>; and 1 at every time when \<open>L = 0\<close>, wrapping or not (every
  index is outside the empty range then, and the constant 1 is what is returned).
\<close>

theorem pattern_at_cases:
  assumes "0 < step_size p"
  shows "(wrap p \<and> 0 < length (multipliers p) \<longrightarrow>
            pattern_at p time =
              multipliers p ! nat (\<lfloor>time / step_size p\<rfloor> mod int (length (multipliers p))))
       \<and> (\<not> wrap p \<and> 0 \<le> \<lfloor>time / step_size p\<rfloor>
             \<and> \<lfloor>time / step_size p\<rfloor> < int (length (multipliers p)) \<longrightarrow>
            pattern_at p time = multipliers p ! nat \<lfloor>time / step_size p\<rfloor>)
       \<and> (\<not> wrap p \<and> 0 < length (multipliers p)
             \<and> (\<lfloor>time / step_size p\<rfloor> < 0
                  \<or> int (length (multipliers p)) \<le> \<lfloor>time / step_size p\<rfloor>) \<longrightarrow>
            pattern_at p time = 0)
       \<and> (length (multipliers p) = 0 \<longrightarrow> pattern_at p time = 1)"
  by (auto simp add: pattern_at_def pattern_getitem_def Let_def)

theorem pattern_at_cases_witness:
  "0 < step_size (Pattern ''oops'' [1, 2, 3, 4, 3, 2, 1] 5 True)
   \<and> wrap (Pattern ''oops'' [1, 2, 3, 4, 3, 2, 1] 5 True)
   \<and> 0 < length (multipliers (Pattern ''oops'' [1, 2, 3, 4, 3, 2, 1] 5 True))
   \<and> \<lfloor>(45 :: real) / 5\<rfloor> mod 7 = 2
   \<and> pattern_at (Pattern ''oops'' [1, 2, 3, 4, 3, 2, 1] 5 True) 45 = 3"
  using pattern_at_cases [of "Pattern ''oops'' [1, 2, 3, 4, 3, 2, 1] 5 True" 45]
  by (simp add: Pattern_def)

text \<open>
  C8. For a wrapping pattern with \<open>L\<close> multipliers and a positive step size \<open>S\<close>,
  \<open>at(t)\<close> equals \<open>at(t + L * S)\<close> at every time \<open>t\<close>.
\<close>

theorem pattern_wrap_law:
  assumes "wrap p" and "0 < step_size p"
  shows "pattern_at p (t + real (length (multipliers p)) * step_size p) = pattern_at p t"
proof -
  have "(t + real (length (multipliers p)) * step_size p) / step_size p
      = t / step_size p + of_int (int (length (multipliers p)))"
    using assms(2) by (simp add: field_simps)
  then have "\<lfloor>(t + real (length (multipliers p)) * step_size p) / step_size p\<rfloor>
      = \<lfloor>t / step_size p\<rfloor> + int (length (multipliers p))"
    by (simp only: floor_add_int)
  then show ?thesis
    using assms(1) by (simp add: pattern_at_def pattern_getitem_def Let_def)
qed

theorem pattern_wrap_law_witness:
  "wrap (Pattern ''oops'' [1, 2, 3, 4, 3, 2, 1] 5 True)
   \<and> 0 < step_size (Pattern ''oops'' [1, 2, 3, 4, 3, 2, 1] 5 True)
   \<and> pattern_at (Pattern ''oops'' [1, 2, 3, 4, 3, 2, 1] 5 True) (10 + 7 * 5) = 3
   \<and> pattern_at (Pattern ''oops'' [1, 2, 3, 4, 3, 2, 1] 5 True) 10 = 3"
  using pattern_wrap_law [of "Pattern ''oops'' [1, 2, 3, 4, 3, 2, 1] 5 True" 10]
  by (simp add: Pattern_def pattern_at_def pattern_getitem_def)

text \<open>
  C6. For a positive step size, the pattern that \<open>BinaryPattern\<close> builds from a start
  time, an end time, the step size and a duration is equal, as patterns are compared
  (multipliers, step size, wrap flag; not the name), to the pattern constructed with the
  same step size and no wrapping from a list written by hand that has
  \<open>ceil(duration / step_size)\<close> entries, 1 on the steps in \<open>[start_time, end_time)\<close> and
  0 on the others.
\<close>

theorem BinaryPattern_equals_manual:
  assumes "0 < step" and "manual_binary start_time end_time step duration ms"
  shows "pattern_eq (BinaryPattern nm start_time end_time step duration)
           (Pattern nm' ms step False)"
proof -
  let ?n = "nat \<lceil>duration / step\<rceil>"
  let ?built = "map (\<lambda>i. if start_time / step \<le> real i \<and> real i < end_time / step
                          then 1 else (0 :: real)) [0..<?n]"
  have len: "length ms = ?n"
    and entries: "\<And>i. i < length ms \<Longrightarrow>
        ms ! i = (if start_time \<le> real i * step \<and> real i * step < end_time then 1 else 0)"
    using assms(2) by (simp_all add: manual_binary_def list_all_iff)
  have "?built ! i = ms ! i" if "i < ?n" for i
    using that assms(1) len entries [of i]
    by (simp add: pos_divide_le_eq pos_less_divide_eq)
  then have "?built = ms"
    using len by (intro nth_equalityI) simp_all
  then show ?thesis
    by (simp add: pattern_eq_def BinaryPattern_def Pattern_def Let_def)
qed

text \<open>The two patterns that \<^verbatim>\<open>test_Pattern\<close> compares.\<close>

theorem BinaryPattern_equals_manual_witness:
  "(0 :: real) < 1 \<and> manual_binary 2 6 1 9 [0, 0, 1, 1, 1, 1, 0, 0, 0]
   \<and> multipliers (BinaryPattern ''binary'' 2 6 1 9) = [0, 0, 1, 1, 1, 1, 0, 0, 0]
   \<and> pattern_eq (BinaryPattern ''binary'' 2 6 1 9)
       (Pattern ''binary'' [0, 0, 1, 1, 1, 1, 0, 0, 0] 1 False)"
proof -
  have n: "nat \<lceil>(9 :: real)\<rceil> = 9" by simp
  have up: "[0..<9] = [0, 1, 2, 3, 4, 5, 6, 7, 8]" by (simp add: upt_rec)
  have m: "manual_binary 2 6 1 9 [0, 0, 1, 1, 1, 1, 0, 0, 0]"
    by (simp add: manual_binary_def up)
  have b: "multipliers (BinaryPattern ''binary'' 2 6 1 9) = [0, 0, 1, 1, 1, 1, 0, 0, 0]"
    by (simp add: BinaryPattern_def Pattern_def n up)
  show ?thesis
    using BinaryPattern_equals_manual [of 1 2 6 9 "[0, 0, 1, 1, 1, 1, 0, 0, 0]" "''binary''"
        "''binary''"] m b
    by simp
qed

section \<open>Time series and demands\<close>

text \<open>
  C9. The constructor of TimeSeries fails, with ValueError and without an object, exactly
  when the base is not a number or the pattern is neither None nor a Pattern; with a
  number and None or a Pattern it returns the time series of that base, pattern and
  category.
\<close>

theorem TimeSeries_validation:
  "((\<exists>e. TimeSeries b p c = Inl e) \<longleftrightarrow> \<not> is_numeric b \<or> \<not> is_pattern_or_none p)
   \<and> (if is_numeric b \<and> is_pattern_or_none p
       then TimeSeries b p c =
              Inr \<lparr>base = numeric_value b, pattern = pattern_value p, category = c\<rparr>
       else TimeSeries b p c = Inl ValueError)"
  by (simp add: TimeSeries_def)

text \<open>The constructions that \<^verbatim>\<open>test_TimeSeries\<close> makes.\<close>

theorem TimeSeries_validation_witness:
  "TimeSeries (PyStr ''A'') PyNone None = Inl ValueError
   \<and> TimeSeries (PyFloat 1.0) (PyStr ''A'') None = Inl ValueError
   \<and> TimeSeries (PyFloat 2.0) PyNone None = Inr \<lparr>base = 2, pattern = None, category = None\<rparr>
   \<and> TimeSeries (PyFloat 2.0) (PyPattern (Pattern ''oops'' [1.0, 1.2, 1.0] 10 True))
        (Some ''tvv2'') =
       Inr \<lparr>base = 2, pattern = Some (Pattern ''oops'' [1.0, 1.2, 1.0] 10 True),
            category = Some ''tvv2''\<rparr>"
  using TimeSeries_validation [of "PyStr ''A''" PyNone None]
    TimeSeries_validation [of "PyFloat 1.0" "PyStr ''A''" None]
    TimeSeries_validation [of "PyFloat 2.0" PyNone None]
    TimeSeries_validation [of "PyFloat 2.0"
      "PyPattern (Pattern ''oops'' [1.0, 1.2, 1.0] 10 True)" "Some ''tvv2''"]
  by simp

lemma test_TimeSeries_call:
  "timeseries_at \<lparr>base = 2, pattern = Some (Pattern ''oops'' [1.0, 1.2, 1.0] 10 True),
                  category = Some ''tvv2''\<rparr> 16 = 2.4"
  "timeseries_at \<lparr>base = 2, pattern = None, category = None\<rparr> 16 = 2"
  by (simp_all add: timeseries_at_def pattern_at_def pattern_getitem_def Pattern_def)

lemma demands_at_loop_sum:
  "demands_at_loop ds t cat acc =
     acc + sum_list (map (\<lambda>m. timeseries_at m t)
                      (filter (\<lambda>m. cat = None \<or> category m = cat) ds))"
  by (induction ds arbitrary: acc) simp_all

text \<open>
  C7. For every list of demands, every time and every category filter (\<open>None\<close> for no
  filter), \<open>demands.at(t, cat)\<close> is the sum of \<open>member.at(t)\<close> over the members whose
  category is \<open>cat\<close>, or over all members without a filter; it is 0 for an empty list and
  when no member has the category.
\<close>

theorem demands_at_additive:
  "demands_at ds t cat =
     sum_list (map (\<lambda>m. timeseries_at m t) (filter (\<lambda>m. cat = None \<or> category m = cat) ds))
   \<and> demands_at [] t cat = 0
   \<and> (filter (\<lambda>m. cat = None \<or> category m = cat) ds = [] \<longrightarrow> demands_at ds t cat = 0)"
  by (simp add: demands_at_def demands_at_loop_sum)

text \<open>The sums that \<^verbatim>\<open>test_Demands\<close> asserts, and a category that no member has.\<close>

lemma example_demands_values:
  "map (\<lambda>m. timeseries_at m 5) example_demands = [1.25, 1, 0.8]"
  "map (\<lambda>m. timeseries_at m 13) example_demands = [2.5, 1.2, 0.96]"
  by (simp_all add: example_demands_def timeseries_at_def pattern_at_def pattern_getitem_def
      Pattern_def)

theorem demands_at_additive_witness:
  "filter (\<lambda>m. category m = Some ''industrial'') example_demands = []
   \<and> demands_at example_demands 13 (Some ''industrial'') = 0
   \<and> demands_at example_demands 5 None = 3.05
   \<and> demands_at example_demands 13 None = 4.66
   \<and> demands_at example_demands 13 (Some ''residential'') = 2.16"
proof -
  have f: "filter (\<lambda>m. category m = Some ''industrial'') example_demands = []"
    by (simp add: example_demands_def)
  have r: "filter (\<lambda>m. category m = Some ''residential'') example_demands
      = tl example_demands"
    by (simp add: example_demands_def)
  show ?thesis
    using demands_at_additive [of example_demands 13 "Some ''industrial''"]
      demands_at_additive [of example_demands 5 None]
      demands_at_additive [of example_demands 13 None]
      demands_at_additive [of example_demands 13 "Some ''residential''"]
      example_demands_values f r
    by (simp add: example_demands_def)
qed

end
